theory Spec2Isabelle
  imports Complex_Main
begin

section \<open>Python strings (ASCII text)\<close>

text \<open>
  Strings are lists of characters. The model covers ASCII text: on it Python's
  \<^verbatim>\<open>str.isspace\<close> (and the \<^verbatim>\<open>\s\<close> of the \<^verbatim>\<open>re\<close> module) holds of the
  code points 9 to 13, 28 to 31 and 32, \<^verbatim>\<open>upper\<close> and \<^verbatim>\<open>lower\<close> move the 26
  letters, and \<^verbatim>\<open>\w\<close> is a letter, a digit or the underscore.
\<close>

definition is_space :: "char \<Rightarrow> bool" where
  "is_space c = (c \<in> set [CHR 0x09, CHR 0x0A, CHR 0x0B, CHR 0x0C, CHR 0x0D,
                            CHR 0x1C, CHR 0x1D, CHR 0x1E, CHR 0x1F, CHR '' ''])"

definition lower_letters :: string where
  "lower_letters = ''abcdefghijklmnopqrstuvwxyz''"

definition upper_letters :: string where
  "upper_letters = ''ABCDEFGHIJKLMNOPQRSTUVWXYZ''"

definition is_alpha :: "char \<Rightarrow> bool" where
  "is_alpha c = (c \<in> set lower_letters \<or> c \<in> set upper_letters)"

definition is_digit :: "char \<Rightarrow> bool" where
  "is_digit c = (c \<in> set ''0123456789'')"

definition is_word :: "char \<Rightarrow> bool" where
  "is_word c = (is_alpha c \<or> is_digit c \<or> c = CHR ''_'')"

definition char_upper :: "char \<Rightarrow> char" where
  "char_upper c = (case map_of (zip lower_letters upper_letters) c of Some u \<Rightarrow> u | None \<Rightarrow> c)"

definition char_lower :: "char \<Rightarrow> char" where
  "char_lower c = (case map_of (zip upper_letters lower_letters) c of Some l \<Rightarrow> l | None \<Rightarrow> c)"

definition upper :: "string \<Rightarrow> string" where
  "upper s = map char_upper s"

definition lower :: "string \<Rightarrow> string" where
  "lower s = map char_lower s"

definition startswith :: "string \<Rightarrow> string \<Rightarrow> bool" where
  "startswith s p = (take (length p) s = p)"

definition endswith :: "string \<Rightarrow> string \<Rightarrow> bool" where
  "endswith s p = startswith (rev s) (rev p)"

text \<open>\<^verbatim>\<open>p in s\<close> for strings: \<open>p\<close> occurs in \<open>s\<close> as a contiguous run.\<close>

fun contains :: "string \<Rightarrow> string \<Rightarrow> bool" where
  "contains [] p = (p = [])"
| "contains (c # cs) p = (startswith (c # cs) p \<or> contains cs p)"

definition lstrip :: "string \<Rightarrow> string" where
  "lstrip s = dropWhile is_space s"

definition rstrip :: "string \<Rightarrow> string" where
  "rstrip s = rev (dropWhile is_space (rev s))"

definition strip :: "string \<Rightarrow> string" where
  "strip s = rstrip (lstrip s)"

text \<open>\<^verbatim>\<open>s.rstrip(';')\<close>: every trailing semicolon goes.\<close>

definition rstrip_semicolons :: "string \<Rightarrow> string" where
  "rstrip_semicolons s = rev (dropWhile (\<lambda>c. c = CHR '';'') (rev s))"

text \<open>\<^verbatim>\<open>s.split(sep)\<close> for a one-character separator: empty fields are kept.\<close>

fun split_on :: "char \<Rightarrow> string \<Rightarrow> string list" where
  "split_on sep [] = [[]]"
| "split_on sep (c # cs) =
     (case split_on sep cs of
        [] \<Rightarrow> (if c = sep then [[], []] else [[c]])
      | w # ws \<Rightarrow> (if c = sep then [] # w # ws else (c # w) # ws))"

text \<open>\<^verbatim>\<open>s.split()\<close>: the maximal runs of non-whitespace characters.\<close>

fun split_ws :: "string \<Rightarrow> string list" where
  "split_ws [] = []"
| "split_ws (c # cs) =
     (if is_space c then split_ws cs
      else (case cs of
              [] \<Rightarrow> [[c]]
            | d # ds \<Rightarrow> (if is_space d then [c] # split_ws cs
                         else (case split_ws cs of [] \<Rightarrow> [[c]] | w # ws \<Rightarrow> (c # w) # ws))))"

fun join :: "string \<Rightarrow> string list \<Rightarrow> string" where
  "join sep [] = []"
| "join sep [w] = w"
| "join sep (w # v # ws) = w @ sep @ join sep (v # ws)"

text \<open>\<^verbatim>\<open>' '.join(s.split())\<close>\<close>

definition normalize_ws :: "string \<Rightarrow> string" where
  "normalize_ws s = join '' '' (split_ws s)"

section \<open>The regular expressions of the source\<close>

text \<open>
  The patterns the source hands to \<^verbatim>\<open>re.search\<close>, \<^verbatim>\<open>re.findall\<close> and
  \<^verbatim>\<open>re.sub\<close> are built from the constructors below and run by a backtracking
  matcher in continuation-passing style, which tries the alternatives in the order of
  Python's engine: a greedy star the longest run first, a lazy star the shortest first,
  an alternation its left branch first, a search the leftmost start first.
\<close>

datatype cls = Space | IdStart | IdChar | AnyChar | Ch char

fun cls_mem :: "bool \<Rightarrow> cls \<Rightarrow> char \<Rightarrow> bool" where
  "cls_mem ic Space c = is_space c"
| "cls_mem ic IdStart c = (is_alpha c \<or> c = CHR ''_'')"
| "cls_mem ic IdChar c = is_word c"
| "cls_mem ic AnyChar c = True"
| "cls_mem ic (Ch d) c = (if ic then char_lower c = char_lower d else c = d)"

datatype rx = Eps | One cls | Star cls | LazyStar cls | Seq rx rx | Alt rx rx
  | Cap rx | WordB | EndZ

fun lit :: "string \<Rightarrow> rx" where
  "lit [] = Eps"
| "lit (c # cs) = Seq (One (Ch c)) (lit cs)"

fun seqs :: "rx list \<Rightarrow> rx" where
  "seqs [] = Eps"
| "seqs (r # rs) = Seq r (seqs rs)"

definition Plus :: "cls \<Rightarrow> rx" where
  "Plus cl = Seq (One cl) (Star cl)"

definition Opt :: "rx \<Rightarrow> rx" where
  "Opt r = Alt r Eps"

text \<open>
  A matcher state: the character before the position (for \<^verbatim>\<open>\b\<close>), the text
  from the position on, and the text of group 1 when the group has closed.
\<close>

type_synonym mstate = "char option \<times> string \<times> string option"

fun star_greedy :: "(char \<Rightarrow> bool) \<Rightarrow> char option \<Rightarrow> string \<Rightarrow>
    (char option \<Rightarrow> string \<Rightarrow> 'a option) \<Rightarrow> 'a option" where
  "star_greedy p prev [] k = k prev []"
| "star_greedy p prev (c # cs) k =
     (if p c then (case star_greedy p (Some c) cs k of
                     Some r \<Rightarrow> Some r
                   | None \<Rightarrow> k prev (c # cs))
      else k prev (c # cs))"

fun star_lazy :: "(char \<Rightarrow> bool) \<Rightarrow> char option \<Rightarrow> string \<Rightarrow>
    (char option \<Rightarrow> string \<Rightarrow> 'a option) \<Rightarrow> 'a option" where
  "star_lazy p prev [] k = k prev []"
| "star_lazy p prev (c # cs) k =
     (case k prev (c # cs) of
        Some r \<Rightarrow> Some r
      | None \<Rightarrow> (if p c then star_lazy p (Some c) cs k else None))"

definition word_at :: "char option \<Rightarrow> bool" where
  "word_at x = (case x of None \<Rightarrow> False | Some c \<Rightarrow> is_word c)"

definition first_char :: "string \<Rightarrow> char option" where
  "first_char s = (case s of [] \<Rightarrow> None | c # _ \<Rightarrow> Some c)"

fun rmatch :: "bool \<Rightarrow> rx \<Rightarrow> mstate \<Rightarrow> (mstate \<Rightarrow> 'a option) \<Rightarrow> 'a option" where
  "rmatch ic Eps st k = k st"
| "rmatch ic (One cl) (prev, rest, g) k =
     (case rest of
        [] \<Rightarrow> None
      | c # cs \<Rightarrow> (if cls_mem ic cl c then k (Some c, cs, g) else None))"
| "rmatch ic (Star cl) (prev, rest, g) k =
     star_greedy (cls_mem ic cl) prev rest (\<lambda>p r. k (p, r, g))"
| "rmatch ic (LazyStar cl) (prev, rest, g) k =
     star_lazy (cls_mem ic cl) prev rest (\<lambda>p r. k (p, r, g))"
| "rmatch ic (Seq a b) st k = rmatch ic a st (\<lambda>st'. rmatch ic b st' k)"
| "rmatch ic (Alt a b) st k =
     (case rmatch ic a st k of Some r \<Rightarrow> Some r | None \<Rightarrow> rmatch ic b st k)"
| "rmatch ic (Cap a) (prev, rest, g) k =
     rmatch ic a (prev, rest, g)
       (\<lambda>(p', rest', g'). k (p', rest', Some (take (length rest - length rest') rest)))"
| "rmatch ic WordB (prev, rest, g) k =
     (if word_at prev \<noteq> word_at (first_char rest) then k (prev, rest, g) else None)"
| "rmatch ic EndZ (prev, rest, g) k = (if rest = [] then k (prev, rest, g) else None)"

text \<open>The match of the pattern at one position: what is left of the text, and group 1.\<close>

definition match_here :: "bool \<Rightarrow> rx \<Rightarrow> char option \<Rightarrow> string \<Rightarrow> (string \<times> string option) option" where
  "match_here ic r prev s = rmatch ic r (prev, s, None) (\<lambda>(p, rest, g). Some (rest, g))"

text \<open>\<^verbatim>\<open>re.search(pattern, text).group(1)\<close>, or \<open>None\<close> when nothing matches.\<close>

fun search_from :: "bool \<Rightarrow> rx \<Rightarrow> char option \<Rightarrow> string \<Rightarrow> string option" where
  "search_from ic r prev [] =
     (case match_here ic r prev [] of
        None \<Rightarrow> None
      | Some (rest, g) \<Rightarrow> Some (case g of None \<Rightarrow> [] | Some t \<Rightarrow> t))"
| "search_from ic r prev (c # cs) =
     (case match_here ic r prev (c # cs) of
        None \<Rightarrow> search_from ic r (Some c) cs
      | Some (rest, g) \<Rightarrow> Some (case g of None \<Rightarrow> [] | Some t \<Rightarrow> t))"

definition re_search :: "bool \<Rightarrow> rx \<Rightarrow> string \<Rightarrow> string option" where
  "re_search ic r s = search_from ic r None s"

text \<open>
  \<^verbatim>\<open>re.findall\<close> for a pattern with one group: group 1 of every match, the matches
  found left to right without overlap. \<open>skip\<close> counts the characters of the last match
  that are still to be passed. (None of the patterns used with it matches the empty
  string.)
\<close>

fun findall_from :: "bool \<Rightarrow> rx \<Rightarrow> nat \<Rightarrow> char option \<Rightarrow> string \<Rightarrow> string list" where
  "findall_from ic r skip prev [] = []"
| "findall_from ic r skip prev (c # cs) =
     (if 0 < skip then findall_from ic r (skip - 1) (Some c) cs
      else (case match_here ic r prev (c # cs) of
              None \<Rightarrow> findall_from ic r 0 (Some c) cs
            | Some (rest, g) \<Rightarrow>
                (case g of None \<Rightarrow> [] | Some t \<Rightarrow> t)
                  # findall_from ic r (length cs - length rest) (Some c) cs))"

definition re_findall :: "bool \<Rightarrow> rx \<Rightarrow> string \<Rightarrow> string list" where
  "re_findall ic r s = findall_from ic r 0 None s"

text \<open>\<^verbatim>\<open>re.sub(pattern, '', text)\<close>: every match, left to right, is cut out.\<close>

fun sub_from :: "bool \<Rightarrow> rx \<Rightarrow> nat \<Rightarrow> char option \<Rightarrow> string \<Rightarrow> string" where
  "sub_from ic r skip prev [] = []"
| "sub_from ic r skip prev (c # cs) =
     (if 0 < skip then sub_from ic r (skip - 1) (Some c) cs
      else (case match_here ic r prev (c # cs) of
              None \<Rightarrow> c # sub_from ic r 0 (Some c) cs
            | Some (rest, g) \<Rightarrow>
                (if length rest = Suc (length cs) then c # sub_from ic r 0 (Some c) cs
                 else sub_from ic r (length cs - length rest) (Some c) cs)))"

definition re_sub_empty :: "bool \<Rightarrow> rx \<Rightarrow> string \<Rightarrow> string" where
  "re_sub_empty ic r s = sub_from ic r 0 None s"

section \<open>The policy engine (\<^verbatim>\<open>auth/authorization_manager.py\<close>)\<close>

record permissions =
  databases :: "string list"
  tables :: "string list"
  columns :: "string list"

definition check_table_access :: "string \<Rightarrow> permissions \<Rightarrow> bool" where
  "check_table_access table_name user_permissions =
     (''*'' \<in> set (tables user_permissions) \<or> table_name \<in> set (tables user_permissions))"

definition check_column_access :: "string \<Rightarrow> string \<Rightarrow> permissions \<Rightarrow> bool" where
  "check_column_access table_name column_name user_permissions =
     (if ''*'' \<in> set (columns user_permissions) then True
      else if (table_name @ ''.'' @ column_name) \<in> set (columns user_permissions) then True
      else column_name \<in> set (columns user_permissions))"

text \<open>
  \<^verbatim>\<open>[a-zA-Z_][a-zA-Z0-9_]*(?:\.[a-zA-Z_][a-zA-Z0-9_]*)?\<close>, the identifier pattern
  of all three extractions.
\<close>

definition ident_rx :: rx where
  "ident_rx = seqs [One IdStart, Star IdChar,
                    Opt (seqs [One (Ch CHR ''.''), One IdStart, Star IdChar])]"

definition from_pattern :: rx where
  "from_pattern = seqs [WordB, lit ''from'', Plus Space, Cap ident_rx]"

definition join_pattern :: rx where
  "join_pattern = seqs [WordB, lit ''join'', Plus Space, Cap ident_rx]"

definition select_pattern :: rx where
  "select_pattern = seqs [WordB, lit ''select'', Plus Space, Cap (LazyStar AnyChar),
                          Plus Space, lit ''from'']"

definition column_pattern :: rx where
  "column_pattern = Cap ident_rx"

record sql_objects =
  obj_tables :: "string list"
  obj_columns :: "string list"

text \<open>
  \<^verbatim>\<open>list(set(...))\<close> keeps one copy of each name in an order Python does not fix;
  \<open>remdups\<close> fixes one. Only the name reported in a denial depends on the order, the
  decision does not.
\<close>

definition select_clause :: "string \<Rightarrow> string option" where
  "select_clause sql_lower = re_search False select_pattern sql_lower"

definition extract_sql_objects :: "string \<Rightarrow> sql_objects" where
  "extract_sql_objects sql_query =
     (let sql_lower = lower sql_query;
          tabs = re_findall False from_pattern sql_lower @ re_findall False join_pattern sql_lower;
          cols = (case select_clause sql_lower of
                    None \<Rightarrow> []
                  | Some clause \<Rightarrow> re_findall False column_pattern clause)
      in \<lparr>obj_tables = remdups tabs, obj_columns = remdups cols\<rparr>)"

text \<open>\<^verbatim>\<open>column.split(".", 1)\<close> of a name that holds a dot.\<close>

definition split_qualified :: "string \<Rightarrow> string \<times> string" where
  "split_qualified column =
     (takeWhile (\<lambda>c. c \<noteq> CHR ''.'') column, tl (dropWhile (\<lambda>c. c \<noteq> CHR ''.'') column))"

definition column_authorized :: "permissions \<Rightarrow> string list \<Rightarrow> string \<Rightarrow> bool" where
  "column_authorized user_permissions tabs column =
     (if CHR ''.'' \<in> set column
      then (case split_qualified column of
              (table_name, col_name) \<Rightarrow> check_column_access table_name col_name user_permissions)
      else list_ex (\<lambda>table. check_column_access table column user_permissions) tabs)"

fun check_tables :: "permissions \<Rightarrow> string list \<Rightarrow> string option" where
  "check_tables user_permissions [] = None"
| "check_tables user_permissions (table # rest) =
     (if \<not> check_table_access table user_permissions then Some table
      else check_tables user_permissions rest)"

fun check_columns :: "permissions \<Rightarrow> string list \<Rightarrow> string list \<Rightarrow> string option" where
  "check_columns user_permissions tabs [] = None"
| "check_columns user_permissions tabs (column # rest) =
     (if \<not> column_authorized user_permissions tabs column then Some column
      else check_columns user_permissions tabs rest)"

text \<open>
  The two loops of \<^verbatim>\<open>authorize_sql_query\<close> return at the first name that fails:
  \<open>check_tables\<close> and \<open>check_columns\<close> find it. Nothing in the body raises on
  well-typed arguments, so the \<^verbatim>\<open>except\<close> branch has no counterpart.
\<close>

definition authorize_sql_query :: "string \<Rightarrow> permissions \<Rightarrow> bool \<times> string" where
  "authorize_sql_query sql_query user_permissions =
     (let sql_objects = extract_sql_objects sql_query in
      case check_tables user_permissions (obj_tables sql_objects) of
        Some table \<Rightarrow> (False, ''Access denied to table: '' @ table)
      | None \<Rightarrow>
          (case check_columns user_permissions (obj_tables sql_objects) (obj_columns sql_objects) of
             Some column \<Rightarrow> (False, ''Access denied to column: '' @ column)
           | None \<Rightarrow> (True, ''Query authorized'')))"

section \<open>The schema graph and the environment of a request\<close>

record column_def =
  col_name :: string

record fk_edge =
  referred_table :: "string option"

record table_info =
  tbl_columns :: "column_def list"
  foreign_keys :: "fk_edge list"

text \<open>
  A schema is a Python dict from table names to their description: an association list
  in insertion order. \<^verbatim>\<open>d[k] = v\<close> replaces the entry of \<open>k\<close> or appends one.
\<close>

type_synonym schema = "(string \<times> table_info) list"

fun dict_set :: "string \<Rightarrow> table_info \<Rightarrow> schema \<Rightarrow> schema" where
  "dict_set k v [] = [(k, v)]"
| "dict_set k v ((k', v') # d) = (if k' = k then (k, v) # d else (k', v') # dict_set k v d)"

definition dict_keys :: "schema \<Rightarrow> string list" where
  "dict_keys d = map fst d"

type_synonym rows = "string list list"

record user =
  username :: string
  user_permissions :: permissions

text \<open>
  A hit of the similarity index: the \<^verbatim>\<open>metadata\<close> of the item, each key present
  or not.
\<close>

record hit =
  hit_type :: "string option"
  hit_table :: "string option"
  hit_column :: "string option"
  hit_data_type :: "string option"

text \<open>
  The collaborators of the agent. A call that raises answers \<open>None\<close>, and
  \<open>exception_text\<close> is then the text of the exception (or the call answers \<open>Inl\<close>
  with that text). The oracle and the database may answer the same
  request differently at different moments, so both also see how many events the
  request has logged so far. Prompts are not built: a request to the oracle is the
  call site and the values the prompt interpolates after the first generation.
\<close>

datatype llm_request = Predict_req | Generate_req | Intent_req | Planner_req
  | Refine_req string string

datatype connection = Admin_conn | User_conn string string

datatype event = Llm_call llm_request | Db_query connection string | Db_schema
  | Auth_check string bool | Validated string bool | Execute_stage string
  | Log_warning string

record env =
  current_user :: "user option"
  semantic_results :: "hit list option"
  table_schema :: "schema option"
  llm :: "nat \<Rightarrow> llm_request \<Rightarrow> string option"
  db :: "nat \<Rightarrow> connection \<Rightarrow> string \<Rightarrow> string + rows"
  db_passwords :: "string \<rightharpoonup> string option"
  max_query_results :: nat
  exception_text :: string

definition llm_invoke :: "env \<Rightarrow> llm_request \<Rightarrow> event list \<Rightarrow> string option \<times> event list" where
  "llm_invoke e req evs = (llm e (length evs) req, evs @ [Llm_call req])"

definition execute_query :: "env \<Rightarrow> connection \<Rightarrow> string \<Rightarrow> event list \<Rightarrow> (string + rows) \<times> event list" where
  "execute_query e conn sql evs = (db e (length evs) conn sql, evs @ [Db_query conn sql])"

section \<open>The enterprise agent (\<^verbatim>\<open>V7/agents/enterprise_sql_agent.py\<close>)\<close>

subsection \<open>Schema context\<close>

text \<open>
  \<^verbatim>\<open>_get_comprehensive_schema_context\<close>: the seed is the set of truthy table names in
  the hits of the similarity index; \<open>closure_step\<close> is the part after the seed is known.
\<close>

definition seed_tables :: "hit list \<Rightarrow> string list" where
  "seed_tables hits =
     remdups (filter (\<lambda>t. t \<noteq> []) (map the (filter (\<lambda>t. t \<noteq> None) (map hit_table hits))))"

definition add_primary :: "schema \<Rightarrow> string list \<Rightarrow> schema \<Rightarrow> schema" where
  "add_primary full_schema relevant_tables acc =
     fold (\<lambda>table_name acc.
             (case map_of full_schema table_name of
                None \<Rightarrow> acc
              | Some info \<Rightarrow> dict_set table_name info acc))
          relevant_tables acc"

definition add_referred :: "schema \<Rightarrow> table_info \<Rightarrow> schema \<Rightarrow> schema" where
  "add_referred full_schema info acc =
     fold (\<lambda>fk acc.
             (case referred_table fk of
                None \<Rightarrow> acc
              | Some ref_table \<Rightarrow>
                  (if ref_table \<noteq> [] then
                     (case map_of full_schema ref_table of
                        None \<Rightarrow> acc
                      | Some ref_info \<Rightarrow> dict_set ref_table ref_info acc)
                   else acc)))
          (foreign_keys info) acc"

definition add_referring :: "schema \<Rightarrow> string \<Rightarrow> schema \<Rightarrow> schema" where
  "add_referring full_schema table_name acc =
     fold (\<lambda>(other_table, other_info) acc.
             fold (\<lambda>fk acc.
                     (if referred_table fk = Some table_name
                      then dict_set other_table other_info acc
                      else acc))
                  (foreign_keys other_info) acc)
          full_schema acc"

definition add_related :: "schema \<Rightarrow> string list \<Rightarrow> schema \<Rightarrow> schema" where
  "add_related full_schema relevant_tables acc =
     fold (\<lambda>table_name acc.
             (case map_of full_schema table_name of
                None \<Rightarrow> acc
              | Some info \<Rightarrow>
                  add_referring full_schema table_name (add_referred full_schema info acc)))
          relevant_tables acc"

definition closure_step :: "schema \<Rightarrow> string list \<Rightarrow> schema" where
  "closure_step full_schema relevant_tables =
     add_related full_schema relevant_tables (add_primary full_schema relevant_tables [])"

definition get_comprehensive_schema_context :: "env \<Rightarrow> schema" where
  "get_comprehensive_schema_context e =
     (case semantic_results e of
        None \<Rightarrow> []
      | Some hits \<Rightarrow>
          (case table_schema e of
             None \<Rightarrow> []
           | Some full_schema \<Rightarrow> closure_step full_schema (seed_tables hits)))"

subsection \<open>Layer 1: required tables and their permissions\<close>

definition parse_table_names :: "string \<Rightarrow> string list" where
  "parse_table_names content =
     filter (\<lambda>t. t \<noteq> []) (map strip (split_on CHR '','' (strip content)))"

definition predict_required_tables :: "env \<Rightarrow> schema \<Rightarrow> event list \<Rightarrow> string list \<times> event list" where
  "predict_required_tables e relevant_schema evs =
     (case llm_invoke e Predict_req evs of
        (None, evs') \<Rightarrow> (dict_keys relevant_schema, evs')
      | (Some content, evs') \<Rightarrow>
          (filter (\<lambda>table. table \<in> set (dict_keys relevant_schema)) (parse_table_names content), evs'))"

definition table_columns :: "schema \<Rightarrow> string \<Rightarrow> column_def list" where
  "table_columns relevant_schema table_name =
     (case map_of relevant_schema table_name of None \<Rightarrow> [] | Some info \<Rightarrow> tbl_columns info)"

definition unauthorized_of_table :: "permissions \<Rightarrow> schema \<Rightarrow> string \<Rightarrow> string list" where
  "unauthorized_of_table perms relevant_schema table_name =
     (if \<not> check_table_access table_name perms then [''table '' @ [CHR 0x27] @ table_name @ [CHR 0x27]]
      else map (\<lambda>column. ''column '' @ [CHR 0x27] @ table_name @ ''.'' @ col_name column @ [CHR 0x27])
             (filter (\<lambda>column. \<not> check_column_access table_name (col_name column) perms)
                (take 5 (table_columns relevant_schema table_name))))"

definition py_repr_list :: "string list \<Rightarrow> string" where
  "py_repr_list xs = ''['' @ join '', '' (map (\<lambda>x. [CHR 0x27] @ x @ [CHR 0x27]) xs) @ '']''"

definition check_pre_generation_authorization ::
    "env \<Rightarrow> schema \<Rightarrow> event list \<Rightarrow> (bool \<times> string) \<times> event list" where
  "check_pre_generation_authorization e relevant_schema evs =
     (case current_user e of
        None \<Rightarrow> ((False, ''User not authenticated''), evs)
      | Some u \<Rightarrow>
          (case predict_required_tables e relevant_schema evs of
             (required_tables, evs') \<Rightarrow>
               (if required_tables = [] then ((False, ''No tables identified for this query''), evs')
                else
                  (let unauthorized_objects =
                         concat (map (unauthorized_of_table (user_permissions u) relevant_schema)
                                     required_tables)
                   in if unauthorized_objects \<noteq> []
                      then ((False, ''Missing permissions for: '' @ join '', '' (take 3 unauthorized_objects)), evs')
                      else ((True, ''Access granted to required tables: '' @ py_repr_list required_tables), evs')))))"

subsection \<open>Generation, cleaning, refinement\<close>

definition fence_sql_rx :: rx where
  "fence_sql_rx = seqs [lit [CHR 0x60, CHR 0x60, CHR 0x60, CHR ''s'', CHR ''q'', CHR ''l''], Star Space]"

definition fence_rx :: rx where
  "fence_rx = seqs [lit [CHR 0x60, CHR 0x60, CHR 0x60], Star Space]"

definition clean_sql :: "string \<Rightarrow> string" where
  "clean_sql sql =
     (if sql = [] then []
      else (let sql1 = re_sub_empty False fence_sql_rx sql;
                sql2 = re_sub_empty False fence_rx sql1;
                sql3 = normalize_ws sql2;
                sql4 = rstrip_semicolons sql3
            in if \<not> startswith (upper sql4) ''SELECT'' then [] else sql4))"

definition enhanced_sql_generation :: "env \<Rightarrow> event list \<Rightarrow> string \<times> event list" where
  "enhanced_sql_generation e evs =
     (case llm_invoke e Generate_req evs of
        (None, evs') \<Rightarrow> ([], evs')
      | (Some content, evs') \<Rightarrow> (clean_sql content, evs'))"

text \<open>
  The fallback of \<^verbatim>\<open>agents/advanced_query_planner.py\<close>: one call for the intent, whose
  failure is caught and whose answer only shapes the next prompt, and one call for the
  statement, read by \<^verbatim>\<open>_extract_sql\<close>.
\<close>

definition planner_block_rx :: rx where
  "planner_block_rx = seqs [lit [CHR 0x60, CHR 0x60, CHR 0x60], Opt (lit ''sql''), Star Space,
                            Cap (LazyStar AnyChar), Star Space, lit [CHR 0x60, CHR 0x60, CHR 0x60]]"

definition planner_select_rx :: rx where
  "planner_select_rx = seqs [Cap (seqs [lit ''SELECT'', Plus Space, LazyStar AnyChar]),
                             Alt (lit [CHR 0x0A, CHR 0x0A]) EndZ]"

definition extract_sql :: "string \<Rightarrow> string" where
  "extract_sql response =
     (case re_search True planner_block_rx response of
        Some g \<Rightarrow> strip g
      | None \<Rightarrow>
          (case re_search True planner_select_rx response of
             Some g \<Rightarrow> strip g
           | None \<Rightarrow> (if startswith (upper (strip response)) ''SELECT'' then strip response else [])))"

definition planner_generate :: "env \<Rightarrow> event list \<Rightarrow> string \<times> event list" where
  "planner_generate e evs =
     (case llm_invoke e Intent_req evs of
        (intent, evs1) \<Rightarrow>
          (case llm_invoke e Planner_req evs1 of
             (None, evs2) \<Rightarrow> ([], evs2)
           | (Some content, evs2) \<Rightarrow> (extract_sql content, evs2)))"

definition refine_sql :: "env \<Rightarrow> string \<Rightarrow> string \<Rightarrow> event list \<Rightarrow> string \<times> event list" where
  "refine_sql e sql err evs =
     (case llm_invoke e (Refine_req sql err) evs of
        (None, evs') \<Rightarrow> ([], evs')
      | (Some content, evs') \<Rightarrow> (clean_sql content, evs'))"

subsection \<open>Validation\<close>

record validation =
  valid :: bool
  error :: "string option"
  confidence :: real

definition dangerous_patterns :: "string list" where
  "dangerous_patterns = [''DROP'', ''DELETE'', ''UPDATE'', ''INSERT'', ''ALTER'', ''CREATE'']"

definition with_limit_1 :: "string \<Rightarrow> string" where
  "with_limit_1 sql =
     (let sql_clean = rstrip_semicolons sql; sql_upper = upper sql_clean
      in if \<not> contains sql_upper ''LIMIT'' \<and> \<not> contains sql_upper ''TOP''
         then sql_clean @ '' LIMIT 1'' else sql_clean)"

text \<open>
  \<^verbatim>\<open>_validate_sql_enhanced\<close>. \<open>validate_checks\<close> is its body; the verdict is then
  written to the trace of the request.
\<close>

definition validate_checks :: "env \<Rightarrow> string \<Rightarrow> event list \<Rightarrow> validation \<times> event list" where
  "validate_checks e sql evs =
     (if sql = [] then (\<lparr>valid = False, error = Some ''Empty SQL query'', confidence = 0\<rparr>, evs)
      else if \<not> startswith (upper sql) ''SELECT''
      then (\<lparr>valid = False, error = Some ''Query must start with SELECT'', confidence = 0\<rparr>, evs)
      else if count_list sql CHR ''('' \<noteq> count_list sql CHR '')''
      then (\<lparr>valid = False, error = Some ''Unbalanced parentheses'', confidence = 0\<rparr>, evs)
      else (case find (\<lambda>pattern. contains (upper sql) pattern) dangerous_patterns of
              Some pattern \<Rightarrow>
                (\<lparr>valid = False, error = Some (''Dangerous operation: '' @ pattern), confidence = 0\<rparr>, evs)
            | None \<Rightarrow>
                (case execute_query e Admin_conn (with_limit_1 sql) evs of
                   (Inr result, evs') \<Rightarrow> (\<lparr>valid = True, error = None, confidence = 9 / 10\<rparr>, evs')
                 | (Inl db_error, evs') \<Rightarrow>
                     (\<lparr>valid = False, error = Some (''Database error: '' @ db_error),
                       confidence = 2 / 10\<rparr>, evs'))))"

definition validate_sql_enhanced :: "env \<Rightarrow> string \<Rightarrow> event list \<Rightarrow> validation \<times> event list" where
  "validate_sql_enhanced e sql evs =
     (case validate_checks e sql evs of
        (validation_result, evs') \<Rightarrow>
          (validation_result, evs' @ [Validated sql (valid validation_result)]))"

subsection \<open>Layer 2 and Layer 3\<close>

text \<open>\<^verbatim>\<open>auth_middleware.check_query_authorization\<close>\<close>

definition check_query_authorization :: "env \<Rightarrow> string \<Rightarrow> event list \<Rightarrow> (bool \<times> string) \<times> event list" where
  "check_query_authorization e sql_query evs =
     (let r = (case current_user e of
                 None \<Rightarrow> (False, ''User not authenticated'')
               | Some u \<Rightarrow> authorize_sql_query sql_query (user_permissions u))
      in (r, evs @ [Auth_check sql_query (fst r)]))"

definition digit_char :: "nat \<Rightarrow> char" where
  "digit_char d =
     (if d = 0 then CHR ''0'' else if d = 1 then CHR ''1'' else if d = 2 then CHR ''2''
      else if d = 3 then CHR ''3'' else if d = 4 then CHR ''4'' else if d = 5 then CHR ''5''
      else if d = 6 then CHR ''6'' else if d = 7 then CHR ''7'' else if d = 8 then CHR ''8''
      else CHR ''9'')"

fun show_nat :: "nat \<Rightarrow> string" where
  "show_nat n = (if n < 10 then [digit_char n] else show_nat (n div 10) @ [digit_char (n mod 10)])"

declare show_nat.simps [simp del]

text \<open>
  \<^verbatim>\<open>_execute_with_user_connection\<close>: the rows, or the text of the exception it raises.
  A stored password that is missing or empty sends the statement over the connection
  of the administrator, after a warning in the log.
\<close>

definition execute_with_user_connection :: "env \<Rightarrow> string \<Rightarrow> event list \<Rightarrow> (string + rows) \<times> event list" where
  "execute_with_user_connection e sql evs =
     (case current_user e of
        None \<Rightarrow> (Inl ''Layer 3 authorization failed: User not authenticated'', evs)
      | Some u \<Rightarrow>
          (case db_passwords e (username u) of
             None \<Rightarrow> (Inl (''Layer 3 authorization failed: User '' @ username u @ '' not found''), evs)
           | Some db_password \<Rightarrow>
               (if db_password = None \<or> db_password = Some []
                then (case execute_query e Admin_conn sql
                             (evs @ [Log_warning (''No DB password for user '' @ username u
                                                  @ '', using admin connection'')]) of
                        (Inr result_df, evs') \<Rightarrow> (Inr result_df, evs')
                      | (Inl err, evs') \<Rightarrow> (Inl (''Layer 3 authorization failed: '' @ err), evs'))
                else (case execute_query e (User_conn (username u) (the db_password)) sql evs of
                        (Inr result_df, evs') \<Rightarrow> (Inr result_df, evs')
                      | (Inl db_error, evs') \<Rightarrow>
                          (Inl (''Layer 3 authorization failed: Database access denied for user ''
                                @ [CHR 0x27] @ username u @ [CHR 0x27] @ '': '' @ db_error), evs')))))"

definition with_result_limit :: "env \<Rightarrow> string \<Rightarrow> string" where
  "with_result_limit e sql =
     (let sql_upper = upper sql; sql' = rstrip_semicolons sql
      in if \<not> contains sql_upper ''LIMIT'' \<and> \<not> contains sql_upper ''TOP''
         then sql' @ '' LIMIT '' @ show_nat (min (max_query_results e) 5000) else sql')"

record execution =
  exec_data :: "rows option"
  exec_error :: string

definition execute_sql_safely :: "env \<Rightarrow> string \<Rightarrow> event list \<Rightarrow> execution \<times> event list" where
  "execute_sql_safely e sql evs0 =
     (case execute_with_user_connection e (with_result_limit e sql) (evs0 @ [Execute_stage sql]) of
        (Inr result_df, evs') \<Rightarrow> (\<lparr>exec_data = Some result_df, exec_error = []\<rparr>, evs')
      | (Inl err, evs') \<Rightarrow>
          (\<lparr>exec_data = None, exec_error = ''Database access denied: '' @ err\<rparr>, evs'))"

subsection \<open>The pipeline\<close>

text \<open>
  The result handed to the caller: the statement, the rows, the error text (empty on
  success) and the confidence. The fields that only echo the request or summarise the
  schema for display are left out.
\<close>

record query_result =
  res_generated_sql :: string
  res_execution_result :: "rows option"
  res_error_message :: string
  res_confidence_score :: real

definition create_error_result :: "string \<Rightarrow> query_result" where
  "create_error_result msg =
     \<lparr>res_generated_sql = [], res_execution_result = None, res_error_message = msg,
      res_confidence_score = 0\<rparr>"

definition finish :: "env \<Rightarrow> string \<Rightarrow> validation \<Rightarrow> event list \<Rightarrow> query_result \<times> event list" where
  "finish e sql validation_result evs =
     (case execute_sql_safely e sql evs of
        (execution_result, evs') \<Rightarrow>
          (\<lparr>res_generated_sql = sql, res_execution_result = exec_data execution_result,
            res_error_message = exec_error execution_result,
            res_confidence_score = confidence validation_result\<rparr>, evs'))"

text \<open>Steps 3 to 5 of \<^verbatim>\<open>process_query\<close>, from a candidate that Layer 2 has let through.\<close>

definition validate_refine_execute :: "env \<Rightarrow> string \<Rightarrow> event list \<Rightarrow> query_result \<times> event list" where
  "validate_refine_execute e sql evs =
     (case validate_sql_enhanced e sql evs of
        (validation_result, evs1) \<Rightarrow>
          (if \<not> valid validation_result then
             (case refine_sql e sql (case error validation_result of None \<Rightarrow> [] | Some t \<Rightarrow> t) evs1 of
                (refined_sql, evs2) \<Rightarrow>
                  (if refined_sql \<noteq> [] then
                     (case check_query_authorization e refined_sql evs2 of
                        ((is_authorized, auth_message), evs3) \<Rightarrow>
                          (if \<not> is_authorized
                           then (create_error_result (''Access denied: '' @ auth_message), evs3)
                           else (case validate_sql_enhanced e refined_sql evs3 of
                                   (validation_result', evs4) \<Rightarrow>
                                     finish e refined_sql validation_result' evs4)))
                   else finish e sql validation_result evs2))
           else finish e sql validation_result evs1))"

definition generate :: "env \<Rightarrow> event list \<Rightarrow> string \<times> event list" where
  "generate e evs =
     (case enhanced_sql_generation e evs of
        (generated_sql, evs1) \<Rightarrow>
          (if generated_sql = [] then planner_generate e evs1 else (generated_sql, evs1)))"

definition process_query :: "env \<Rightarrow> query_result \<times> event list" where
  "process_query e =
     (let relevant_schema = get_comprehensive_schema_context e in
      case check_pre_generation_authorization e relevant_schema [] of
        ((authorized, message), evs1) \<Rightarrow>
          (if \<not> authorized then (create_error_result (''Access denied: '' @ message), evs1)
           else (case generate e evs1 of
                   (generated_sql, evs2) \<Rightarrow>
                     (if generated_sql = []
                      then (create_error_result ''Failed to generate SQL query'', evs2)
                      else (case check_query_authorization e generated_sql evs2 of
                              ((is_authorized, auth_message), evs3) \<Rightarrow>
                                (if \<not> is_authorized
                                 then (create_error_result (''Access denied: '' @ auth_message), evs3)
                                 else validate_refine_execute e generated_sql evs3))))))"

section \<open>The workflow agent (\<^verbatim>\<open>V2/agents/sql_agent_fixed.py\<close>)\<close>

subsection \<open>The parser of the oracle's answer\<close>

definition fence :: string where
  "fence = [CHR 0x60, CHR 0x60, CHR 0x60]"

text \<open>
  The patterns of \<^verbatim>\<open>ImprovedSQLOutputParser.parse\<close>, all searched with
  \<^verbatim>\<open>re.DOTALL | re.IGNORECASE\<close>.
\<close>

definition code_block_patterns :: "rx list" where
  "code_block_patterns =
     [seqs [lit fence, lit ''sql'', Star Space, Cap (LazyStar AnyChar), Star Space, lit fence],
      seqs [lit fence, Star Space, Cap (seqs [lit ''SELECT'', LazyStar AnyChar]), Star Space, lit fence],
      seqs [lit fence, Cap (LazyStar AnyChar), lit fence]]"

definition select_patterns :: "rx list" where
  "select_patterns =
     [seqs [Cap (seqs [lit ''SELECT'', Plus Space, LazyStar AnyChar]), Alt (lit [CHR 0x0A, CHR 0x0A]) EndZ],
      seqs [Cap (seqs [lit ''SELECT'', Plus Space, LazyStar AnyChar]), Alt (lit '';'') EndZ],
      seqs [Cap (seqs [lit ''SELECT'', LazyStar AnyChar]), Alt (lit [CHR 0x0A, CHR 0x0A]) EndZ]]"

definition parser_clean_sql :: "string \<Rightarrow> string" where
  "parser_clean_sql sql =
     (let sql1 = normalize_ws sql;
          sql2 = (if endswith sql1 '';'' then butlast sql1 else sql1)
      in if \<not> startswith (upper sql2) ''SELECT'' then [] else sql2)"

text \<open>Method 1: the first pattern whose match holds a \<open>SELECT\<close> decides.\<close>

fun from_code_block :: "rx list \<Rightarrow> string \<Rightarrow> string option" where
  "from_code_block [] text = None"
| "from_code_block (pattern # patterns) text =
     (case re_search True pattern text of
        None \<Rightarrow> from_code_block patterns text
      | Some g \<Rightarrow>
          (let sql_content = strip g
           in if sql_content \<noteq> [] \<and> contains (upper sql_content) ''SELECT''
              then Some (parser_clean_sql sql_content)
              else from_code_block patterns text))"

text \<open>Method 2: the first pattern that matches decides.\<close>

fun from_select_pattern :: "rx list \<Rightarrow> string \<Rightarrow> string option" where
  "from_select_pattern [] text = None"
| "from_select_pattern (pattern # patterns) text =
     (case re_search True pattern text of
        None \<Rightarrow> from_select_pattern patterns text
      | Some g \<Rightarrow> Some (parser_clean_sql (strip g)))"

text \<open>
  Method 4, the loop over the lines: \<open>in_sql\<close> is the flag of the source, the result
  the list \<^verbatim>\<open>sql_lines\<close>.
\<close>

definition clause_keywords :: "string list" where
  "clause_keywords = [''FROM'', ''WHERE'', ''GROUP'', ''ORDER'', ''HAVING'', ''LIMIT'']"

fun collect_sql_lines :: "bool \<Rightarrow> string list \<Rightarrow> string list" where
  "collect_sql_lines in_sql [] = []"
| "collect_sql_lines in_sql (raw # rest) =
     (let line = strip raw in
      if startswith (upper line) ''SELECT'' then line # collect_sql_lines True rest
      else if in_sql \<and> line \<noteq> [] then
        (if list_ex (\<lambda>keyword. contains (upper line) keyword) clause_keywords
         then line # collect_sql_lines in_sql rest
         else if endswith line '';'' then [line]
         else if strip (filter (\<lambda>c. c \<noteq> CHR '','' \<and> c \<noteq> CHR ''('' \<and> c \<noteq> CHR '')'') line) = []
         then collect_sql_lines in_sql rest
         else line # collect_sql_lines in_sql rest)
      else collect_sql_lines in_sql rest)"

definition parse :: "string \<Rightarrow> string" where
  "parse raw_text =
     (let text = strip raw_text in
      case from_code_block code_block_patterns text of
        Some sql \<Rightarrow> sql
      | None \<Rightarrow>
          (case from_select_pattern select_patterns text of
             Some sql \<Rightarrow> sql
           | None \<Rightarrow>
               (if startswith (upper text) ''SELECT'' then parser_clean_sql text
                else if list_ex (\<lambda>keyword. contains (upper text) keyword) [''SELECT'', ''FROM'', ''WHERE'']
                then (let sql_lines = collect_sql_lines False (split_on (CHR 0x0A) text)
                      in if sql_lines \<noteq> [] then parser_clean_sql (join '' '' sql_lines) else [])
                else [])))"

subsection \<open>The state of the workflow and its nodes\<close>

text \<open>
  \<^verbatim>\<open>SQLGenerationState\<close>, without the echo of the question; \<open>s_trace\<close> is the trace
  of the calls the nodes make, \<open>s_nodes\<close> the nodes that have run, latest first.
\<close>

record sql_state =
  s_relevant_schema :: "hit list"
  s_generated_sql :: string
  s_validated_sql :: string
  s_execution_result :: "rows option"
  s_error_message :: string
  s_confidence_score :: real
  s_refinement_attempts :: nat
  s_trace :: "event list"
  s_nodes :: "string list"

definition max_refinement_attempts :: nat where
  "max_refinement_attempts = 2"

definition state_llm :: "env \<Rightarrow> llm_request \<Rightarrow> sql_state \<Rightarrow> string option \<times> sql_state" where
  "state_llm e req st =
     (case llm_invoke e req (s_trace st) of (r, evs) \<Rightarrow> (r, st\<lparr>s_trace := evs\<rparr>))"

definition state_query :: "env \<Rightarrow> string \<Rightarrow> sql_state \<Rightarrow> (string + rows) \<times> sql_state" where
  "state_query e sql st =
     (case execute_query e Admin_conn sql (s_trace st) of (r, evs) \<Rightarrow> (r, st\<lparr>s_trace := evs\<rparr>))"

text \<open>\<^verbatim>\<open>db_manager.get_table_schema()\<close>: \<open>None\<close> when it raises.\<close>

definition state_schema :: "env \<Rightarrow> sql_state \<Rightarrow> schema option \<times> sql_state" where
  "state_schema e st = (table_schema e, st\<lparr>s_trace := s_trace st @ [Db_schema]\<rparr>)"

definition analyze_query :: "env \<Rightarrow> sql_state \<Rightarrow> sql_state" where
  "analyze_query e st0 =
     (let st = st0\<lparr>s_nodes := ''analyze_query'' # s_nodes st0\<rparr> in
      case semantic_results e of
        Some relevant_schema \<Rightarrow> st\<lparr>s_relevant_schema := relevant_schema\<rparr>
      | None \<Rightarrow> st\<lparr>s_error_message := ''Query analysis failed: '' @ exception_text e\<rparr>)"

text \<open>\<^verbatim>\<open>_format_schema_context\<close>: the tables in the order they first appear.\<close>

fun dict_get :: "(string \<times> 'v) list \<Rightarrow> string \<Rightarrow> 'v option" where
  "dict_get [] k = None"
| "dict_get ((k', v) # d) k = (if k' = k then Some v else dict_get d k)"

fun dict_put :: "string \<Rightarrow> 'v \<Rightarrow> (string \<times> 'v) list \<Rightarrow> (string \<times> 'v) list" where
  "dict_put k v [] = [(k, v)]"
| "dict_put k v ((k', v') # d) = (if k' = k then (k, v) # d else (k', v') # dict_put k v d)"

definition truthy :: "string option \<Rightarrow> bool" where
  "truthy x = (case x of None \<Rightarrow> False | Some t \<Rightarrow> t \<noteq> [])"

fun group_by_table :: "hit list \<Rightarrow> string list \<Rightarrow> (string \<times> string list) list
    \<Rightarrow> (string \<times> string list) list" where
  "group_by_table [] tables_seen table_info = table_info"
| "group_by_table (item # items) tables_seen table_info =
     (if hit_type item = Some ''table'' then
        (if truthy (hit_table item) \<and> the (hit_table item) \<notin> set tables_seen
         then group_by_table items (the (hit_table item) # tables_seen)
                (dict_put (the (hit_table item)) [] table_info)
         else group_by_table items tables_seen table_info)
      else if hit_type item = Some ''column'' then
        (if truthy (hit_table item) \<and> truthy (hit_column item)
         then (let table_name = the (hit_table item);
                   data_type = (case hit_data_type item of None \<Rightarrow> [] | Some t \<Rightarrow> t);
                   cols = (case dict_get table_info table_name of None \<Rightarrow> [] | Some cs \<Rightarrow> cs)
               in group_by_table items tables_seen
                    (dict_put table_name (cols @ [the (hit_column item) @ '' ('' @ data_type @ '')''])
                       table_info))
         else group_by_table items tables_seen table_info)
      else group_by_table items tables_seen table_info)"

definition format_schema_context :: "hit list \<Rightarrow> string" where
  "format_schema_context relevant_schema =
     (if relevant_schema = [] then []
      else concat (map (\<lambda>(table_name, cols).
                          [CHR 0x0A] @ ''Table: '' @ table_name @ [CHR 0x0A]
                          @ concat (map (\<lambda>column. ''  - '' @ column @ [CHR 0x0A]) (take 10 cols)))
                       (group_by_table relevant_schema [] [])))"

definition generate_simple_fallback_query :: "env \<Rightarrow> sql_state \<Rightarrow> string \<times> sql_state" where
  "generate_simple_fallback_query e st =
     (case state_schema e st of
        (None, st') \<Rightarrow> (''SELECT 1 as test_query'', st')
      | (Some all_schema, st') \<Rightarrow>
          (case all_schema of
             [] \<Rightarrow> (''SELECT 1 as test_query'', st')
           | (first_table, first_table_info) # _ \<Rightarrow>
               (''SELECT '' @ join '', '' (map col_name (take 5 (tbl_columns first_table_info)))
                  @ '' FROM '' @ first_table @ '' LIMIT 10'', st')))"

text \<open>
  \<^verbatim>\<open>_generate_sql\<close>. \<open>prepare_generation\<close> is what it does before it calls the
  oracle: when the schema context is blank it reads the schema of the database, for the
  prompt only.
\<close>

definition prepare_generation :: "env \<Rightarrow> sql_state \<Rightarrow> sql_state" where
  "prepare_generation e st0 =
     (let st = st0\<lparr>s_nodes := ''generate_sql'' # s_nodes st0\<rparr>;
          schema_context = format_schema_context (s_relevant_schema st)
      in if strip schema_context = [] then snd (state_schema e st) else st)"

definition generate_sql :: "env \<Rightarrow> sql_state \<Rightarrow> sql_state" where
  "generate_sql e st0 =
     (case state_llm e Generate_req (prepare_generation e st0) of
        (Some content, st2) \<Rightarrow>
          (let generated_sql = parse content in
           if generated_sql = []
           then (case generate_simple_fallback_query e st2 of
                   (fallback_sql, st3) \<Rightarrow> st3\<lparr>s_generated_sql := fallback_sql\<rparr>)
           else st2\<lparr>s_generated_sql := generated_sql\<rparr>)
      | (None, st2) \<Rightarrow>
          (case generate_simple_fallback_query e
                  (st2\<lparr>s_error_message := ''SQL generation failed: '' @ exception_text e\<rparr>) of
             (fallback_sql, st3) \<Rightarrow> st3\<lparr>s_generated_sql := fallback_sql\<rparr>))"

definition injection_patterns :: "string list" where
  "injection_patterns = [''drop'', ''delete'', ''truncate'', ''alter'', ''create'', ''insert'', ''update'']"

definition validate_sql :: "env \<Rightarrow> sql_state \<Rightarrow> sql_state" where
  "validate_sql e st0 =
     (let st = st0\<lparr>s_nodes := ''validate_sql'' # s_nodes st0\<rparr>;
          generated_sql = s_generated_sql st in
      if generated_sql = [] then st\<lparr>s_error_message := ''No SQL query generated''\<rparr>
      else (let sql_lower = strip (lower generated_sql) in
            if \<not> startswith sql_lower ''select''
            then st\<lparr>s_error_message := ''Query must start with SELECT''\<rparr>
            else (case find (\<lambda>pattern. contains sql_lower pattern) injection_patterns of
                    Some pattern \<Rightarrow>
                      st\<lparr>s_error_message := ''Potentially dangerous SQL operation detected: '' @ pattern\<rparr>
                  | None \<Rightarrow>
                      (let validation_sql =
                             (if \<not> contains sql_lower ''limit'' \<and> \<not> contains sql_lower ''top''
                              then generated_sql @ '' LIMIT 1'' else generated_sql)
                       in case state_query e validation_sql st of
                            (Inr test_result, st') \<Rightarrow>
                              st'\<lparr>s_validated_sql := generated_sql, s_confidence_score := 9 / 10\<rparr>
                          | (Inl db_error, st') \<Rightarrow>
                              st'\<lparr>s_error_message := ''SQL validation failed: '' @ db_error,
                                  s_confidence_score := 3 / 10\<rparr>))))"

definition execute_sql :: "env \<Rightarrow> sql_state \<Rightarrow> sql_state" where
  "execute_sql e st0 =
     (let st = st0\<lparr>s_nodes := ''execute_sql'' # s_nodes st0\<rparr>;
          validated_sql = s_validated_sql st;
          sql_lower = lower validated_sql;
          limited = (if \<not> contains sql_lower ''limit'' \<and> \<not> contains sql_lower ''top''
                     then validated_sql @ '' LIMIT '' @ show_nat (max_query_results e)
                     else validated_sql)
      in case state_query e limited st of
           (Inr result, st') \<Rightarrow> st'\<lparr>s_execution_result := Some result\<rparr>
         | (Inl err, st') \<Rightarrow> st'\<lparr>s_error_message := ''SQL execution failed: '' @ err\<rparr>)"

definition refine_sql_node :: "env \<Rightarrow> sql_state \<Rightarrow> sql_state" where
  "refine_sql_node e st0 =
     (let st = st0\<lparr>s_nodes := ''refine_sql'' # s_nodes st0,
                   s_refinement_attempts := s_refinement_attempts st0 + 1\<rparr>;
          generated_sql = s_generated_sql st
      in case state_llm e (Refine_req generated_sql (s_error_message st)) st of
           (Some content, st') \<Rightarrow>
             (let refined_sql = parse content in
              if refined_sql \<noteq> [] \<and> refined_sql \<noteq> generated_sql
              then st'\<lparr>s_generated_sql := refined_sql, s_error_message := []\<rparr>
              else st'\<lparr>s_error_message := ''Unable to refine query further''\<rparr>)
         | (None, st') \<Rightarrow>
             st'\<lparr>s_error_message := ''SQL refinement failed: '' @ exception_text e\<rparr>)"

datatype route = Route_execute | Route_refine | Route_end

definition should_execute_or_refine :: "sql_state \<Rightarrow> route" where
  "should_execute_or_refine st =
     (if s_refinement_attempts st \<ge> max_refinement_attempts then Route_end
      else if s_error_message st \<noteq> [] then
        (if s_confidence_score st < 5 / 10 then Route_refine else Route_end)
      else if s_validated_sql st \<noteq> [] then Route_execute
      else Route_end)"

subsection \<open>The graph\<close>

text \<open>
  The edges of \<^verbatim>\<open>_create_workflow\<close>: \<^verbatim>\<open>analyze_query\<close>, \<^verbatim>\<open>generate_sql\<close>,
  \<^verbatim>\<open>validate_sql\<close>, then the conditional edge, with \<^verbatim>\<open>refine_sql\<close> leading back
  to \<^verbatim>\<open>validate_sql\<close>. The loop ends because a refinement is entered only below the
  maximum and raises the count.
\<close>

function run_from_validate :: "env \<Rightarrow> sql_state \<Rightarrow> sql_state" where
  "run_from_validate e st =
     (let st1 = validate_sql e st in
      case should_execute_or_refine st1 of
        Route_execute \<Rightarrow> execute_sql e st1
      | Route_end \<Rightarrow> st1
      | Route_refine \<Rightarrow> run_from_validate e (refine_sql_node e st1))"
  by pat_completeness auto
termination
proof (relation "measure (\<lambda>(e, st). max_refinement_attempts - s_refinement_attempts st)")
  show "wf (measure (\<lambda>(e, st). max_refinement_attempts - s_refinement_attempts st))"
    by simp
next
  fix e :: env and st x :: sql_state
  assume x: "x = validate_sql e st" and r: "should_execute_or_refine x = Route_refine"
  have same: "s_refinement_attempts x = s_refinement_attempts st"
    unfolding x
    by (simp add: validate_sql_def state_query_def execute_query_def Let_def
          split: option.splits sum.splits prod.splits)
  have below: "s_refinement_attempts x < max_refinement_attempts"
    using r by (simp add: should_execute_or_refine_def split: if_splits)
  have more: "s_refinement_attempts (refine_sql_node e x) = Suc (s_refinement_attempts x)"
    by (simp add: refine_sql_node_def state_llm_def llm_invoke_def Let_def
          split: option.splits prod.splits)
  show "((e, refine_sql_node e x), (e, st))
          \<in> measure (\<lambda>(e, st). max_refinement_attempts - s_refinement_attempts st)"
    using same below more by simp
qed

declare run_from_validate.simps [simp del]

definition initial_state :: sql_state where
  "initial_state =
     \<lparr>s_relevant_schema = [], s_generated_sql = [], s_validated_sql = [],
      s_execution_result = None, s_error_message = [], s_confidence_score = 0,
      s_refinement_attempts = 0, s_trace = [], s_nodes = []\<rparr>"

definition run_workflow :: "env \<Rightarrow> sql_state" where
  "run_workflow e = run_from_validate e (generate_sql e (analyze_query e initial_state))"



section \<open>Notions of the specification\<close>

definition keys_of :: "schema \<Rightarrow> string set" where
  "keys_of d = set (dict_keys d)"

text \<open>
  The tables a table points to by a foreign key, the tables that point to it, and
  the seed with its neighbours one hop away, all inside the schema graph.
\<close>

definition fk_targets :: "schema \<Rightarrow> string \<Rightarrow> string set" where
  "fk_targets full_schema t =
     (case map_of full_schema t of
        None \<Rightarrow> {}
      | Some info \<Rightarrow> {r. r \<noteq> [] \<and> r \<in> keys_of full_schema
                         \<and> (\<exists>fk \<in> set (foreign_keys info). referred_table fk = Some r)})"

definition fk_sources :: "schema \<Rightarrow> string \<Rightarrow> string set" where
  "fk_sources full_schema t =
     {other. \<exists>info. (other, info) \<in> set full_schema
                \<and> (\<exists>fk \<in> set (foreign_keys info). referred_table fk = Some t)}"

definition one_hop :: "schema \<Rightarrow> string set \<Rightarrow> string set" where
  "one_hop full_schema seed =
     (seed \<inter> keys_of full_schema)
     \<union> (\<Union>t \<in> seed \<inter> keys_of full_schema. fk_targets full_schema t \<union> fk_sources full_schema t)"

definition restricts :: "schema \<Rightarrow> schema \<Rightarrow> string set \<Rightarrow> bool" where
  "restricts full_schema acc K = (map_of acc = map_of full_schema |` K)"

text \<open>
  Three checks that read a trace from left to right. \<open>denial_final\<close>: nothing follows
  a denial of Layer 2. \<open>refine_follows_failure\<close>: a refinement request comes right
  after a failed validation of the statement it refines. \<open>authorized_first\<close>: a
  statement is validated, sent to the database or executed only after Layer 2 has let
  it through.
\<close>

fun denial_final :: "event list \<Rightarrow> bool" where
  "denial_final [] = True"
| "denial_final (x # tr) = ((\<forall>s. x = Auth_check s False \<longrightarrow> tr = []) \<and> denial_final tr)"

fun refine_follows_failure :: "event option \<Rightarrow> event list \<Rightarrow> bool" where
  "refine_follows_failure prev [] = True"
| "refine_follows_failure prev (x # tr) =
     ((\<forall>s err. x = Llm_call (Refine_req s err) \<longrightarrow> prev = Some (Validated s False))
      \<and> refine_follows_failure (Some x) tr)"

definition sent_for :: "env \<Rightarrow> string \<Rightarrow> string \<Rightarrow> bool" where
  "sent_for e s q = (q = with_limit_1 s \<or> q = with_result_limit e s)"

fun authorized_first :: "env \<Rightarrow> string set \<Rightarrow> event list \<Rightarrow> bool" where
  "authorized_first e A [] = True"
| "authorized_first e A (x # tr) =
     ((\<forall>s. (x = Execute_stage s \<or> (\<exists>v. x = Validated s v)) \<longrightarrow> s \<in> A)
      \<and> (\<forall>c q. x = Db_query c q \<longrightarrow> (\<exists>s \<in> A. sent_for e s q))
      \<and> authorized_first e (A \<union> {s. x = Auth_check s True}) tr)"

definition dry_run_events :: "string \<Rightarrow> event list \<Rightarrow> bool" where
  "dry_run_events s dry = (dry = [] \<or> dry = [Db_query Admin_conn (with_limit_1 s)])"

definition exec_events :: "env \<Rightarrow> string \<Rightarrow> event list \<Rightarrow> bool" where
  "exec_events e s ex =
     (ex = [] \<or> (\<exists>c. ex = [Db_query c (with_result_limit e s)])
      \<or> (\<exists>w c. ex = [Log_warning w, Db_query c (with_result_limit e s)]))"

text \<open>A call of the oracle that is not a refinement request.\<close>

definition plain_call :: "event \<Rightarrow> bool" where
  "plain_call x = (\<exists>r. x = Llm_call r \<and> (\<forall>s err. r \<noteq> Refine_req s err))"


section \<open>Example inputs\<close>

definition shop_schema :: schema where
  "shop_schema =
     [(''customers'', \<lparr>tbl_columns = [\<lparr>col_name = ''customer_id''\<rparr>, \<lparr>col_name = ''email''\<rparr>],
                       foreign_keys = []\<rparr>),
      (''orders'', \<lparr>tbl_columns = [\<lparr>col_name = ''order_id''\<rparr>, \<lparr>col_name = ''customer_id''\<rparr>,
                                     \<lparr>col_name = ''total''\<rparr>],
                    foreign_keys = [\<lparr>referred_table = Some ''customers''\<rparr>]\<rparr>),
      (''order_items'', \<lparr>tbl_columns = [\<lparr>col_name = ''order_id''\<rparr>, \<lparr>col_name = ''product_id''\<rparr>],
                         foreign_keys = [\<lparr>referred_table = Some ''orders''\<rparr>,
                                         \<lparr>referred_table = Some ''products''\<rparr>]\<rparr>),
      (''products'', \<lparr>tbl_columns = [\<lparr>col_name = ''product_id''\<rparr>], foreign_keys = []\<rparr>)]"


definition alice :: user where
  "alice = \<lparr>username = ''alice'',
            user_permissions = \<lparr>databases = [''*''], tables = [''orders''], columns = [''*'']\<rparr>\<rparr>"

text \<open>The oracle names two tables that the context does not hold.\<close>

definition unknown_tables_env :: env where
  "unknown_tables_env =
     \<lparr>current_user = Some alice,
      semantic_results = Some [\<lparr>hit_type = Some ''table'', hit_table = Some ''orders'',
                                 hit_column = None, hit_data_type = None\<rparr>],
      table_schema = Some shop_schema,
      llm = (\<lambda>n req. Some ''invoices, payments''),
      db = (\<lambda>n conn sql. Inr []),
      db_passwords = [''alice'' \<mapsto> Some ''s3cret''],
      max_query_results = 10000,
      exception_text = ''connection refused''\<rparr>"

text \<open>The call of the oracle raises.\<close>

definition oracle_down_env :: env where
  "oracle_down_env = unknown_tables_env\<lparr>llm := (\<lambda>n req. None)\<rparr>"

text \<open>
  Scenario B of the specification: the principal may read \<open>orders\<close> only, and the
  predictor names \<open>orders\<close> and \<open>customers\<close>.
\<close>

definition scenario_b_env :: env where
  "scenario_b_env = unknown_tables_env\<lparr>llm := (\<lambda>n req. Some ''orders, customers'')\<rparr>"

text \<open>A user whose record stores no database password.\<close>

definition no_password_env :: env where
  "no_password_env =
     unknown_tables_env\<lparr>db := (\<lambda>n conn sql. Inr [[''1'']]), db_passwords := [''alice'' \<mapsto> None]\<rparr>"

text \<open>
  The first candidate has an unbalanced parenthesis; the refined one reads a table
  the principal may not read.
\<close>

definition refine_denied_env :: env where
  "refine_denied_env =
     unknown_tables_env\<lparr>llm := (\<lambda>n req.
        case req of
          Predict_req \<Rightarrow> Some ''orders''
        | Generate_req \<Rightarrow> Some ''SELECT * FROM orders WHERE (total > 5''
        | Refine_req sql err \<Rightarrow> Some ''SELECT * FROM customers''
        | _ \<Rightarrow> None)\<rparr>"



text \<open>
  The oracle answers with a statement that truncates a table, and the database runs
  whatever it is sent.
\<close>

definition truncate_sql :: string where
  "truncate_sql = ''SELECT 1; TRUNCATE TABLE orders; SELECT 1''"

definition truncate_env :: env where
  "truncate_env =
     unknown_tables_env\<lparr>llm := (\<lambda>n req.
        case req of
          Predict_req \<Rightarrow> Some ''orders''
        | Generate_req \<Rightarrow> Some truncate_sql
        | _ \<Rightarrow> None)\<rparr>"

text \<open>
  The oracle answers with a statement that drops a table; asked to refine it, the call
  raises.
\<close>

definition drop_sql :: string where
  "drop_sql = ''SELECT 1; DROP TABLE orders; SELECT 1''"

definition drop_env :: env where
  "drop_env =
     unknown_tables_env\<lparr>llm := (\<lambda>n req.
        case req of
          Predict_req \<Rightarrow> Some ''orders''
        | Generate_req \<Rightarrow> Some drop_sql
        | _ \<Rightarrow> None)\<rparr>"





section \<open>The closure step of the schema context\<close>

lemma map_of_dict_set: "map_of (dict_set k v d) = (map_of d)(k \<mapsto> v)"
  by (induction d) (auto simp: fun_eq_iff)

lemma keys_of_dom: "keys_of d = dom (map_of d)"
  by (simp add: keys_of_def dict_keys_def dom_map_of_conv_image_fst)

lemma restricts_dict_set:
  assumes "restricts F acc K" and "map_of F k = Some v"
  shows "restricts F (dict_set k v acc) (insert k K)"
  using assms by (auto simp: restricts_def map_of_dict_set fun_eq_iff restrict_map_def)

lemma add_primary_restricts:
  "restricts F acc K \<Longrightarrow>
   restricts F (add_primary F seed acc) (K \<union> (set seed \<inter> keys_of F))"
proof (induction seed arbitrary: acc K)
  case Nil
  then show ?case by (simp add: add_primary_def)
next
  case (Cons t seed)
  show ?case
  proof (cases "map_of F t")
    case None
    then have "t \<notin> keys_of F" by (simp add: keys_of_dom domIff)
    moreover have "add_primary F (t # seed) acc = add_primary F seed acc"
      using None by (simp add: add_primary_def)
    ultimately show ?thesis using Cons.IH[OF Cons.prems] by simp
  next
    case (Some info)
    then have tin: "t \<in> keys_of F" by (auto simp: keys_of_dom)
    have eq: "add_primary F (t # seed) acc = add_primary F seed (dict_set t info acc)"
      using Some by (simp add: add_primary_def)
    have "restricts F (dict_set t info acc) (insert t K)"
      using restricts_dict_set[OF Cons.prems Some] .
    from Cons.IH[OF this] have "restricts F (add_primary F seed (dict_set t info acc))
        (insert t K \<union> (set seed \<inter> keys_of F))" .
    moreover have "insert t K \<union> (set seed \<inter> keys_of F) = K \<union> (set (t # seed) \<inter> keys_of F)"
      using tin by auto
    ultimately show ?thesis using eq by simp
  qed
qed


lemma add_referred_restricts:
  assumes "restricts F acc K"
  shows "restricts F (add_referred F info acc)
           (K \<union> {r. r \<noteq> [] \<and> r \<in> keys_of F \<and> (\<exists>fk \<in> set (foreign_keys info). referred_table fk = Some r)})"
proof -
  define step :: "fk_edge \<Rightarrow> schema \<Rightarrow> schema" where "step = (\<lambda>fk acc.
             (case referred_table fk of
                None \<Rightarrow> acc
              | Some ref_table \<Rightarrow>
                  (if ref_table \<noteq> [] then
                     (case map_of F ref_table of
                        None \<Rightarrow> acc
                      | Some ref_info \<Rightarrow> dict_set ref_table ref_info acc)
                   else acc)))"
  have gen: "restricts F acc K \<Longrightarrow> restricts F (fold step fks acc)
           (K \<union> {r. r \<noteq> [] \<and> r \<in> keys_of F \<and> (\<exists>fk \<in> set fks. referred_table fk = Some r)})"
    for fks :: "fk_edge list" and acc K
  proof (induction fks arbitrary: acc K)
    case Nil
    then show ?case by simp
  next
    case (Cons fk fks)
    let ?T = "\<lambda>fs. {r. r \<noteq> [] \<and> r \<in> keys_of F \<and> (\<exists>fk \<in> set fs. referred_table fk = Some r)}"
    have "\<exists>K'. restricts F (step fk acc) K' \<and> K' \<union> ?T fks = K \<union> ?T (fk # fks)"
    proof (cases "referred_table fk")
      case None
      then have "step fk acc = acc" by (simp add: step_def)
      moreover have "K \<union> ?T fks = K \<union> ?T (fk # fks)" using None by auto
      ultimately show ?thesis using Cons.prems by auto
    next
      case (Some r)
      show ?thesis
      proof (cases "r \<noteq> [] \<and> map_of F r \<noteq> None")
        case True
        then obtain ri where ri: "map_of F r = Some ri" by auto
        then have "step fk acc = dict_set r ri acc" using Some True by (simp add: step_def)
        moreover have "restricts F (dict_set r ri acc) (insert r K)"
          using restricts_dict_set[OF Cons.prems ri] .
        moreover have "r \<in> keys_of F" using ri by (auto simp: keys_of_dom)
        then have "insert r K \<union> ?T fks = K \<union> ?T (fk # fks)" using Some True by auto
        ultimately have "restricts F (step fk acc) (insert r K)
            \<and> insert r K \<union> ?T fks = K \<union> ?T (fk # fks)" by simp
        then show ?thesis by (rule exI[of _ "insert r K"])
      next
        case False
        then have "step fk acc = acc" using Some by (auto simp: step_def)
        moreover have "K \<union> ?T fks = K \<union> ?T (fk # fks)"
          using Some False by (auto simp: keys_of_dom)
        ultimately show ?thesis using Cons.prems by auto
      qed
    qed
    then obtain K' where K': "restricts F (step fk acc) K'" "K' \<union> ?T fks = K \<union> ?T (fk # fks)"
      by blast
    from Cons.IH[OF K'(1)] K'(2) show ?case by simp
  qed
  show ?thesis using gen[OF assms, of "foreign_keys info"]
    by (simp add: add_referred_def step_def)
qed

lemma fold_referring_inner:
  assumes "restricts F acc K" and "map_of F other = Some oi"
  shows "restricts F (fold (\<lambda>fk acc. if referred_table fk = Some t then dict_set other oi acc else acc) fks acc)
           (K \<union> (if \<exists>fk \<in> set fks. referred_table fk = Some t then {other} else {}))"
  using assms(1)
proof (induction fks arbitrary: acc K)
  case Nil
  then show ?case by simp
next
  case (Cons fk fks)
  show ?case
  proof (cases "referred_table fk = Some t")
    case True
    have "restricts F (dict_set other oi acc) (insert other K)"
      using restricts_dict_set[OF Cons.prems assms(2)] .
    from Cons.IH[OF this]
    have "restricts F (fold (\<lambda>fk acc. if referred_table fk = Some t then dict_set other oi acc else acc)
             fks (dict_set other oi acc))
           (insert other K \<union> (if \<exists>fk \<in> set fks. referred_table fk = Some t then {other} else {}))" .
    moreover have "insert other K \<union> (if \<exists>fk \<in> set fks. referred_table fk = Some t then {other} else {})
        = K \<union> {other}" by auto
    ultimately show ?thesis using True by simp
  next
    case False
    from Cons.IH[OF Cons.prems] show ?thesis using False by simp
  qed
qed

lemma add_referring_restricts:
  assumes "restricts F acc K" and "distinct (map fst F)"
  shows "restricts F (add_referring F t acc) (K \<union> fk_sources F t)"
proof -
  define inner where "inner = (\<lambda>(other_table, other_info) acc.
             fold (\<lambda>fk acc. (if referred_table fk = Some t
                      then dict_set other_table other_info acc else acc))
                  (foreign_keys other_info) acc)"
  have gen: "restricts F acc K \<Longrightarrow> set items \<subseteq> set F \<Longrightarrow>
      restricts F (fold inner items acc)
        (K \<union> {other. \<exists>info. (other, info) \<in> set items
                \<and> (\<exists>fk \<in> set (foreign_keys info). referred_table fk = Some t)})"
    for items acc K
  proof (induction items arbitrary: acc K)
    case Nil
    then show ?case by simp
  next
    case (Cons item items)
    obtain other oi where item: "item = (other, oi)" by (cases item)
    have "(other, oi) \<in> set F" using Cons.prems(2) item by auto
    then have m: "map_of F other = Some oi" using assms(2) by simp
    have "restricts F (inner item acc)
           (K \<union> (if \<exists>fk \<in> set (foreign_keys oi). referred_table fk = Some t then {other} else {}))"
      using fold_referring_inner[OF Cons.prems(1) m, of t "foreign_keys oi"]
      by (simp add: inner_def item)
    from Cons.IH[OF this] Cons.prems(2)
    have "restricts F (fold inner items (inner item acc))
       (K \<union> (if \<exists>fk \<in> set (foreign_keys oi). referred_table fk = Some t then {other} else {})
          \<union> {other. \<exists>info. (other, info) \<in> set items
                \<and> (\<exists>fk \<in> set (foreign_keys info). referred_table fk = Some t)})" by simp
    moreover have "K \<union> (if \<exists>fk \<in> set (foreign_keys oi). referred_table fk = Some t then {other} else {})
          \<union> {other. \<exists>info. (other, info) \<in> set items
                \<and> (\<exists>fk \<in> set (foreign_keys info). referred_table fk = Some t)}
        = K \<union> {other. \<exists>info. (other, info) \<in> set (item # items)
                \<and> (\<exists>fk \<in> set (foreign_keys info). referred_table fk = Some t)}"
      using item by auto
    ultimately show ?case by simp
  qed
  show ?thesis using gen[OF assms(1), of F]
    by (simp add: add_referring_def inner_def fk_sources_def)
qed

lemma add_related_restricts:
  assumes "distinct (map fst F)"
  shows "restricts F acc K \<Longrightarrow>
    restricts F (add_related F seed acc)
      (K \<union> (\<Union>t \<in> set seed \<inter> keys_of F. fk_targets F t \<union> fk_sources F t))"
proof (induction seed arbitrary: acc K)
  case Nil
  then show ?case by (simp add: add_related_def)
next
  case (Cons t seed)
  show ?case
  proof (cases "map_of F t")
    case None
    then have "t \<notin> keys_of F" by (simp add: keys_of_dom domIff)
    moreover have "add_related F (t # seed) acc = add_related F seed acc"
      using None by (simp add: add_related_def)
    ultimately show ?thesis using Cons.IH[OF Cons.prems] by simp
  next
    case (Some info)
    then have tin: "t \<in> keys_of F" by (auto simp: keys_of_dom)
    have eq: "add_related F (t # seed) acc
        = add_related F seed (add_referring F t (add_referred F info acc))"
      using Some by (simp add: add_related_def)
    have tg: "fk_targets F t = {r. r \<noteq> [] \<and> r \<in> keys_of F \<and> (\<exists>fk \<in> set (foreign_keys info). referred_table fk = Some r)}"
      using Some by (simp add: fk_targets_def)
    have "restricts F (add_referring F t (add_referred F info acc))
            (K \<union> fk_targets F t \<union> fk_sources F t)"
      using add_referring_restricts[OF add_referred_restricts[OF Cons.prems] assms] tg by simp
    from Cons.IH[OF this]
    have "restricts F (add_related F (t # seed) acc)
        (K \<union> fk_targets F t \<union> fk_sources F t
           \<union> (\<Union>t \<in> set seed \<inter> keys_of F. fk_targets F t \<union> fk_sources F t))"
      using eq by simp
    moreover have "K \<union> fk_targets F t \<union> fk_sources F t
           \<union> (\<Union>t \<in> set seed \<inter> keys_of F. fk_targets F t \<union> fk_sources F t)
         = K \<union> (\<Union>t \<in> set (t # seed) \<inter> keys_of F. fk_targets F t \<union> fk_sources F t)"
      using tin by auto
    ultimately show ?thesis by simp
  qed
qed

lemma closure_step_restricts:
  assumes "distinct (map fst F)"
  shows "restricts F (closure_step F seed) (one_hop F (set seed))"
proof -
  have "restricts F [] {}" by (simp add: restricts_def)
  from add_related_restricts[OF assms add_primary_restricts[OF this]]
  show ?thesis by (simp add: closure_step_def one_hop_def)
qed

lemma fk_targets_subset: "fk_targets F t \<subseteq> keys_of F"
  by (auto simp: fk_targets_def split: option.splits)

lemma fk_sources_subset: "fk_sources F t \<subseteq> keys_of F"
proof
  fix x assume "x \<in> fk_sources F t"
  then obtain info where "(x, info) \<in> set F" by (auto simp: fk_sources_def)
  then have "fst (x, info) \<in> fst ` set F" by (rule imageI)
  then show "x \<in> keys_of F" by (simp add: keys_of_def dict_keys_def)
qed

lemma one_hop_subset: "one_hop F S \<subseteq> keys_of F"
  using fk_targets_subset[of F] fk_sources_subset[of F] by (auto simp: one_hop_def)

lemma closure_step_keys:
  assumes "distinct (map fst F)"
  shows "keys_of (closure_step F seed) = one_hop F (set seed)"
proof -
  have "map_of (closure_step F seed) = map_of F |` one_hop F (set seed)"
    using closure_step_restricts[OF assms] by (simp add: restricts_def)
  then have "dom (map_of (closure_step F seed)) = dom (map_of F) \<inter> one_hop F (set seed)"
    by simp
  then show ?thesis using one_hop_subset[of F "set seed"] by (auto simp: keys_of_dom)
qed


text \<open>
  C8, as the claim states it, fails: a seed table that the schema graph does not hold
  is dropped by the guard \<^verbatim>\<open>if table_name in self._full_schema\<close>, so the output
  is not a superset of the seed.
\<close>

theorem closure_step_superset_counterexample:
  "\<not> set [''orders'', ''archived_orders'']
       \<subseteq> keys_of (closure_step shop_schema [''orders'', ''archived_orders''])"
proof -
  have "dict_keys (closure_step shop_schema [''orders'', ''archived_orders''])
          = [''orders'', ''customers'', ''order_items'']"
    by code_simp
  then show ?thesis by (simp add: keys_of_def)
qed

text \<open>
  C8, amended: for a schema graph with distinct table names, the tables of the output
  are exactly the seed tables that the schema graph holds together with the tables one
  foreign-key hop away from them in either direction, each with its entry of the schema
  graph; so the output is a superset of the seed whenever the schema graph holds every
  seed table; and the output depends on the seed only as a set, not on the order or the
  repetitions in which the hits name it.
\<close>

theorem closure_step_one_hop:
  assumes "distinct (map fst full_schema)"
  shows "keys_of (closure_step full_schema seed) = one_hop full_schema (set seed)
       \<and> map_of (closure_step full_schema seed) = map_of full_schema |` one_hop full_schema (set seed)
       \<and> (set seed \<subseteq> keys_of full_schema \<longrightarrow> set seed \<subseteq> keys_of (closure_step full_schema seed))
       \<and> (\<forall>seed'. set seed' = set seed \<longrightarrow>
              map_of (closure_step full_schema seed') = map_of (closure_step full_schema seed))"
proof -
  have keys: "keys_of (closure_step full_schema s) = one_hop full_schema (set s)" for s
    using closure_step_keys[OF assms] .
  have vals: "map_of (closure_step full_schema s) = map_of full_schema |` one_hop full_schema (set s)" for s
    using closure_step_restricts[OF assms] by (simp add: restricts_def)
  have sup: "set seed \<subseteq> keys_of full_schema \<longrightarrow> set seed \<subseteq> keys_of (closure_step full_schema seed)"
    unfolding keys by (auto simp: one_hop_def)
  have det: "\<forall>seed'. set seed' = set seed \<longrightarrow>
              map_of (closure_step full_schema seed') = map_of (closure_step full_schema seed)"
    by (simp add: vals)
  show ?thesis using keys vals sup det by blast
qed

theorem closure_step_one_hop_witness:
  "distinct (map fst shop_schema)
   \<and> set [''orders''] \<subseteq> keys_of shop_schema
   \<and> set [''orders'', ''orders''] = set [''orders'']
   \<and> set [''orders''] \<subseteq> keys_of (closure_step shop_schema [''orders''])
   \<and> keys_of (closure_step shop_schema [''orders'']) = one_hop shop_schema (set [''orders''])
   \<and> map_of (closure_step shop_schema [''orders'', ''orders''])
       = map_of (closure_step shop_schema [''orders''])"
proof -
  have d: "distinct (map fst shop_schema)" by (simp add: shop_schema_def)
  have s: "set [''orders''] \<subseteq> keys_of shop_schema"
    by (simp add: shop_schema_def keys_of_def dict_keys_def)
  have e: "set [''orders'', ''orders''] = set [''orders'']" by simp
  from closure_step_one_hop[OF d, of "[''orders'']"] d s e show ?thesis by blast
qed

section \<open>The required-table predictor and Layer 1\<close>

lemma llm_invoke_simps:
  "fst (llm_invoke e req evs) = llm e (length evs) req"
  "snd (llm_invoke e req evs) = evs @ [Llm_call req]"
  by (simp_all add: llm_invoke_def)

lemma predict_events: "snd (predict_required_tables e rs evs) = evs @ [Llm_call Predict_req]"
  by (simp add: predict_required_tables_def llm_invoke_def split: option.splits)

lemma predict_some:
  "llm e (length evs) Predict_req = Some content \<Longrightarrow>
   fst (predict_required_tables e rs evs)
     = filter (\<lambda>t. t \<in> keys_of rs) (parse_table_names content)"
  by (simp add: predict_required_tables_def llm_invoke_def keys_of_def)

lemma predict_none:
  "llm e (length evs) Predict_req = None \<Longrightarrow>
   fst (predict_required_tables e rs evs) = dict_keys rs"
  by (simp add: predict_required_tables_def llm_invoke_def)

lemma predict_subset: "set (fst (predict_required_tables e rs evs)) \<subseteq> keys_of rs"
  by (cases "llm e (length evs) Predict_req") (auto simp: predict_some predict_none keys_of_def)

lemma layer1_no_tables:
  assumes "current_user e = Some u" and "fst (predict_required_tables e rs evs) = []"
  shows "fst (check_pre_generation_authorization e rs evs)
           = (False, ''No tables identified for this query'')"
proof -
  obtain evs' where "predict_required_tables e rs evs = ([], evs')"
    using assms(2) by (cases "predict_required_tables e rs evs") simp
  then show ?thesis using assms(1) by (simp add: check_pre_generation_authorization_def)
qed

text \<open>
  C7, as the claim states it, fails: when every name the oracle gives is unknown to the
  context, the predictor returns the empty list, not the tables of the context.
\<close>

theorem predict_no_fallback_counterexample:
  "llm unknown_tables_env 0 Predict_req = Some ''invoices, payments''
   \<and> fst (predict_required_tables unknown_tables_env shop_schema []) = []
   \<and> dict_keys shop_schema = [''customers'', ''orders'', ''order_items'', ''products'']"
  by code_simp

text \<open>
  C7, amended: the predictor accepts from the oracle only table names that the context
  holds (it keeps, in order, the parsed names that are keys of the context). When the
  call of the oracle raises, it falls back to all tables of the context. When the parsed
  answer is empty or entirely invalid it returns the empty list, and Layer 1 then
  refuses the request with \<^verbatim>\<open>No tables identified for this query\<close>: zero required
  tables is a failure, not a successful prediction.
\<close>

theorem predict_required_tables_validates:
  "set (fst (predict_required_tables e rs evs)) \<subseteq> keys_of rs
   \<and> (\<forall>content. llm e (length evs) Predict_req = Some content \<longrightarrow>
         fst (predict_required_tables e rs evs)
           = filter (\<lambda>t. t \<in> keys_of rs) (parse_table_names content))
   \<and> (llm e (length evs) Predict_req = None \<longrightarrow>
         fst (predict_required_tables e rs evs) = dict_keys rs)
   \<and> (\<forall>u. current_user e = Some u \<and> fst (predict_required_tables e rs evs) = [] \<longrightarrow>
         fst (check_pre_generation_authorization e rs evs)
           = (False, ''No tables identified for this query''))"
  using predict_subset[of e rs evs] predict_some[of e evs _ rs] predict_none[of e evs rs]
    layer1_no_tables[of e _ rs evs]
  by blast

theorem predict_required_tables_validates_witness:
  "llm unknown_tables_env (length ([] :: event list)) Predict_req = Some ''invoices, payments''
   \<and> current_user unknown_tables_env = Some alice
   \<and> fst (predict_required_tables unknown_tables_env shop_schema []) = []
   \<and> fst (check_pre_generation_authorization unknown_tables_env shop_schema [])
        = (False, ''No tables identified for this query'')
   \<and> llm oracle_down_env (length ([] :: event list)) Predict_req = None
   \<and> fst (predict_required_tables oracle_down_env shop_schema []) = dict_keys shop_schema"
proof -
  have a: "llm unknown_tables_env (length ([] :: event list)) Predict_req = Some ''invoices, payments''"
    by (simp add: unknown_tables_env_def)
  have b: "current_user unknown_tables_env = Some alice"
    by (simp add: unknown_tables_env_def)
  have c: "filter (\<lambda>t. t \<in> keys_of shop_schema) (parse_table_names ''invoices, payments'') = []"
    unfolding keys_of_def by code_simp
  have d: "llm oracle_down_env (length ([] :: event list)) Predict_req = None"
    by (simp add: oracle_down_env_def)
  from predict_required_tables_validates[of unknown_tables_env shop_schema "[]"]
       predict_required_tables_validates[of oracle_down_env shop_schema "[]"]
       a b c d
  show ?thesis by (metis (no_types, lifting))
qed

text \<open>
  C4: when the predicted set of required tables is not empty and one of its tables
  fails \<open>check_table_access\<close>, or one of the first five columns of a permitted required
  table fails \<open>check_column_access\<close>, the pipeline answers with an access-denied result
  whose statement is empty and whose confidence is 0, and the only call of the oracle
  is the prediction: no generation call and no database call is made.
\<close>

theorem layer1_denial_blocks_generation:
  assumes "current_user e = Some u"
    and "rs = get_comprehensive_schema_context e"
    and "required = fst (predict_required_tables e rs [])"
    and "required \<noteq> []"
    and "\<exists>t \<in> set required.
           \<not> check_table_access t (user_permissions u)
           \<or> (\<exists>c \<in> set (take 5 (table_columns rs t)).
                 \<not> check_column_access t (col_name c) (user_permissions u))"
  shows "res_generated_sql (fst (process_query e)) = []
       \<and> res_confidence_score (fst (process_query e)) = 0
       \<and> res_execution_result (fst (process_query e)) = None
       \<and> startswith (res_error_message (fst (process_query e)))
            ''Access denied: Missing permissions for: ''
       \<and> snd (process_query e) = [Llm_call Predict_req]"
proof -
  obtain t where t: "t \<in> set required"
    and bad: "\<not> check_table_access t (user_permissions u)
           \<or> (\<exists>c \<in> set (take 5 (table_columns rs t)).
                 \<not> check_column_access t (col_name c) (user_permissions u))"
    using assms(5) by blast
  have "unauthorized_of_table (user_permissions u) rs t \<noteq> []"
    using bad by (auto simp: unauthorized_of_table_def filter_empty_conv)
  then have ne: "concat (map (unauthorized_of_table (user_permissions u) rs) required) \<noteq> []"
    using t by auto
  obtain evs where p: "predict_required_tables e rs [] = (required, evs)"
    using assms(3) by (cases "predict_required_tables e rs []") simp
  have evs: "evs = [Llm_call Predict_req]"
    using predict_events[of e rs "[]"] p by simp
  have l1: "check_pre_generation_authorization e rs []
        = ((False, ''Missing permissions for: ''
              @ join '', '' (take 3 (concat (map (unauthorized_of_table (user_permissions u) rs) required)))),
           [Llm_call Predict_req])"
    using assms(1) assms(4) ne p evs
    by (simp add: check_pre_generation_authorization_def Let_def)
  show ?thesis
    using l1 assms(2)
    by (simp add: process_query_def Let_def create_error_result_def startswith_def)
qed

theorem layer1_denial_blocks_generation_witness:
  "current_user scenario_b_env = Some alice
   \<and> fst (predict_required_tables scenario_b_env (get_comprehensive_schema_context scenario_b_env) [])
       = [''orders'', ''customers'']
   \<and> \<not> check_table_access ''customers'' (user_permissions alice)
   \<and> res_generated_sql (fst (process_query scenario_b_env)) = []
   \<and> res_confidence_score (fst (process_query scenario_b_env)) = 0
   \<and> snd (process_query scenario_b_env) = [Llm_call Predict_req]"
proof -
  have a: "current_user scenario_b_env = Some alice"
    by (simp add: scenario_b_env_def unknown_tables_env_def)
  have b: "fst (predict_required_tables scenario_b_env (get_comprehensive_schema_context scenario_b_env) [])
       = [''orders'', ''customers'']"
    by code_simp
  have c: "\<not> check_table_access ''customers'' (user_permissions alice)"
    by (simp add: check_table_access_def alice_def)
  have d: "\<exists>t \<in> set [''orders'', ''customers''].
           \<not> check_table_access t (user_permissions alice)
           \<or> (\<exists>c \<in> set (take 5 (table_columns (get_comprehensive_schema_context scenario_b_env) t)).
                 \<not> check_column_access t (col_name c) (user_permissions alice))"
    using c by simp
  from layer1_denial_blocks_generation[OF a refl b[symmetric] _ d] a b c
  show ?thesis by simp
qed

section \<open>Layer 3\<close>

text \<open>
  C6, as the claim states it, fails: for a user without a stored database password the
  statement runs over the connection of the administrator, and nothing in the
  environment of the agent configures that.
\<close>

theorem admin_fallback_counterexample:
  "current_user no_password_env = Some alice
   \<and> db_passwords no_password_env ''alice'' = Some None
   \<and> execute_with_user_connection no_password_env ''SELECT 1'' []
       = (Inr [[''1'']],
          [Log_warning ''No DB password for user alice, using admin connection'',
           Db_query Admin_conn ''SELECT 1''])"
  by (simp add: no_password_env_def unknown_tables_env_def alice_def
        execute_with_user_connection_def execute_query_def)

text \<open>
  C6, amended: when the record of the authenticated user stores no database password
  (none, or an empty one), Layer 3 runs the statement over the shared connection of the
  administrator, after a warning in the log; this fallback is the default and no setting
  gates it. When a password is stored, the statement runs over the connection of the
  user and over no other.
\<close>

theorem layer3_connection_choice:
  assumes "current_user e = Some u" and "db_passwords e (username u) = Some pw"
  shows "(pw = None \<or> pw = Some [] \<longrightarrow>
            snd (execute_with_user_connection e sql evs)
              = evs @ [Log_warning (''No DB password for user '' @ username u
                                    @ '', using admin connection''),
                       Db_query Admin_conn sql])
       \<and> (\<forall>p. pw = Some p \<and> p \<noteq> [] \<longrightarrow>
            snd (execute_with_user_connection e sql evs)
              = evs @ [Db_query (User_conn (username u) p) sql])"
  using assms
  by (auto simp: execute_with_user_connection_def execute_query_def split: sum.splits)

theorem layer3_connection_choice_witness:
  "current_user no_password_env = Some alice
   \<and> db_passwords no_password_env (username alice) = Some None
   \<and> snd (execute_with_user_connection no_password_env ''SELECT 1'' [])
       = [Log_warning (''No DB password for user '' @ username alice @ '', using admin connection''),
          Db_query Admin_conn ''SELECT 1'']
   \<and> current_user unknown_tables_env = Some alice
   \<and> db_passwords unknown_tables_env (username alice) = Some (Some ''s3cret'')
   \<and> snd (execute_with_user_connection unknown_tables_env ''SELECT 1'' [])
       = [Db_query (User_conn (username alice) ''s3cret'') ''SELECT 1'']"
proof -
  have a: "current_user no_password_env = Some alice"
    by (simp add: no_password_env_def unknown_tables_env_def)
  have b: "db_passwords no_password_env (username alice) = Some None"
    by (simp add: no_password_env_def unknown_tables_env_def alice_def)
  have c: "current_user unknown_tables_env = Some alice"
    by (simp add: unknown_tables_env_def)
  have d: "db_passwords unknown_tables_env (username alice) = Some (Some ''s3cret'')"
    by (simp add: unknown_tables_env_def alice_def)
  from layer3_connection_choice[OF a b, of "''SELECT 1''" "[]"]
       layer3_connection_choice[OF c d, of "''SELECT 1''" "[]"] a b c d
  show ?thesis by simp
qed

section \<open>Layer 2 in the pipeline\<close>

lemma denial_final_sound:
  "denial_final tr \<Longrightarrow> tr = pre @ Auth_check s False # post \<Longrightarrow> post = []"
proof (induction pre arbitrary: tr)
  case Nil
  then show ?case by simp
next
  case (Cons a pre)
  then show ?case by (cases tr) auto
qed

lemma refine_follows_failure_sound:
  "refine_follows_failure prev tr \<Longrightarrow> tr = pre @ Llm_call (Refine_req s err) # post \<Longrightarrow>
   (pre = [] \<and> prev = Some (Validated s False)) \<or> (\<exists>pre'. pre = pre' @ [Validated s False])"
proof (induction pre arbitrary: tr prev)
  case Nil
  then show ?case by simp
next
  case (Cons a pre)
  then obtain tr' where tr: "tr = a # tr'" and tr': "tr' = pre @ Llm_call (Refine_req s err) # post"
    by (cases tr) auto
  have "refine_follows_failure (Some a) tr'" using Cons.prems(1) tr by simp
  from Cons.IH[OF this tr']
  show ?case
  proof
    assume "pre = [] \<and> Some a = Some (Validated s False)"
    then have "a # pre = [] @ [Validated s False]" by simp
    then show ?thesis by blast
  next
    assume "\<exists>pre'. pre = pre' @ [Validated s False]"
    then obtain pre' where "pre = pre' @ [Validated s False]" by blast
    then have "a # pre = (a # pre') @ [Validated s False]" by simp
    then show ?thesis by blast
  qed
qed

lemma authorized_first_sound:
  "authorized_first e A tr \<Longrightarrow> tr = pre @ x # post \<Longrightarrow>
   ((x = Execute_stage s \<or> (\<exists>v. x = Validated s v)) \<longrightarrow> s \<in> A \<or> Auth_check s True \<in> set pre)
   \<and> (\<forall>c q. x = Db_query c q \<longrightarrow>
         (\<exists>s'. (s' \<in> A \<or> Auth_check s' True \<in> set pre) \<and> sent_for e s' q))"
proof (induction pre arbitrary: tr A)
  case Nil
  then show ?case by auto
next
  case (Cons a pre)
  then obtain tr' where tr: "tr = a # tr'" and tr': "tr' = pre @ x # post"
    by (cases tr) auto
  have "authorized_first e (A \<union> {s. a = Auth_check s True}) tr'"
    using Cons.prems(1) tr by simp
  from Cons.IH[OF this tr'] show ?case by auto
qed

lemma denial_final_exec: "exec_events e s ex \<Longrightarrow> denial_final ex"
  by (auto simp: exec_events_def)

lemma refine_follows_failure_exec: "exec_events e s ex \<Longrightarrow> refine_follows_failure p ex"
  by (auto simp: exec_events_def)

lemma authorized_first_exec: "exec_events e s ex \<Longrightarrow> s \<in> A \<Longrightarrow> authorized_first e A ex"
  by (auto simp: exec_events_def sent_for_def)

lemma check_query_authorization_events:
  "snd (check_query_authorization e s evs)
     = evs @ [Auth_check s (fst (fst (check_query_authorization e s evs)))]"
  by (simp add: check_query_authorization_def Let_def)

lemma validate_checks_events:
  "\<exists>dry. snd (validate_checks e s evs) = evs @ dry \<and> dry_run_events s dry"
  by (auto simp: validate_checks_def execute_query_def dry_run_events_def
           split: option.splits sum.splits)

lemma validate_events:
  "\<exists>dry. snd (validate_sql_enhanced e s evs)
            = evs @ dry @ [Validated s (valid (fst (validate_sql_enhanced e s evs)))]
         \<and> dry_run_events s dry"
proof -
  obtain dry where d: "snd (validate_checks e s evs) = evs @ dry" "dry_run_events s dry"
    using validate_checks_events by blast
  have "snd (validate_sql_enhanced e s evs)
      = snd (validate_checks e s evs) @ [Validated s (valid (fst (validate_sql_enhanced e s evs)))]"
    by (simp add: validate_sql_enhanced_def split: prod.splits)
  then show ?thesis using d by auto
qed

lemma refine_events: "snd (refine_sql e s err evs) = evs @ [Llm_call (Refine_req s err)]"
  by (simp add: refine_sql_def llm_invoke_def split: option.splits)

lemma execute_with_user_connection_events:
  "\<exists>ex. snd (execute_with_user_connection e q evs) = evs @ ex
        \<and> (ex = [] \<or> (\<exists>c. ex = [Db_query c q]) \<or> (\<exists>w c. ex = [Log_warning w, Db_query c q]))"
  by (auto simp: execute_with_user_connection_def execute_query_def
           split: option.splits sum.splits)

lemma finish_events:
  "\<exists>ex. snd (finish e s v evs) = evs @ Execute_stage s # ex \<and> exec_events e s ex"
proof -
  obtain ex where ex: "snd (execute_with_user_connection e (with_result_limit e s) (evs @ [Execute_stage s]))
        = (evs @ [Execute_stage s]) @ ex"
     "ex = [] \<or> (\<exists>c. ex = [Db_query c (with_result_limit e s)])
        \<or> (\<exists>w c. ex = [Log_warning w, Db_query c (with_result_limit e s)])"
    using execute_with_user_connection_events by blast
  have "snd (finish e s v evs)
      = snd (execute_with_user_connection e (with_result_limit e s) (evs @ [Execute_stage s]))"
    by (simp add: finish_def execute_sql_safely_def split: prod.splits sum.splits)
  then show ?thesis using ex by (simp add: exec_events_def)
qed


lemma validate_refine_execute_unfold:
  "validate_refine_execute e s evs =
     (let V = validate_sql_enhanced e s evs in
      if \<not> valid (fst V) then
        (let R = refine_sql e s (case error (fst V) of None \<Rightarrow> [] | Some t \<Rightarrow> t) (snd V) in
         if fst R \<noteq> [] then
           (let C = check_query_authorization e (fst R) (snd R) in
            if \<not> fst (fst C)
            then (create_error_result (''Access denied: '' @ snd (fst C)), snd C)
            else (let V' = validate_sql_enhanced e (fst R) (snd C)
                  in finish e (fst R) (fst V') (snd V')))
         else finish e s (fst V) (snd R))
      else finish e s (fst V) (snd V))"
  by (simp add: validate_refine_execute_def case_prod_beta Let_def)

lemma validate_refine_execute_tail:
  assumes "s \<in> A"
  shows "\<exists>suf. snd (validate_refine_execute e s evs) = evs @ suf
     \<and> denial_final suf \<and> refine_follows_failure p suf \<and> authorized_first e A suf
     \<and> ((\<exists>r. Auth_check r False \<in> set suf) \<longrightarrow>
          (\<exists>msg. fst (validate_refine_execute e s evs)
                    = create_error_result (''Access denied: '' @ msg)))"
proof -
  define V where "V = validate_sql_enhanced e s evs"
  obtain dry where dry: "snd V = evs @ dry @ [Validated s (valid (fst V))]"
      and dryc: "dry_run_events s dry"
    using validate_events[of e s evs] unfolding V_def by blast
  have dry_cases: "dry = [] \<or> dry = [Db_query Admin_conn (with_limit_1 s)]"
    using dryc by (simp add: dry_run_events_def)
  have sent1: "sent_for e s (with_limit_1 s)" by (simp add: sent_for_def)
  show ?thesis
  proof (cases "valid (fst V)")
    case True
    obtain ex where ex: "snd (finish e s (fst V) (snd V)) = snd V @ Execute_stage s # ex"
        and exc: "exec_events e s ex"
      using finish_events by blast
    have res: "validate_refine_execute e s evs = finish e s (fst V) (snd V)"
      using True by (simp add: validate_refine_execute_unfold V_def Let_def)
    let ?suf = "dry @ [Validated s True, Execute_stage s] @ ex"
    have 1: "snd (validate_refine_execute e s evs) = evs @ ?suf"
      using res ex dry True by simp
    have noden: "\<not> (\<exists>r. Auth_check r False \<in> set ?suf)"
      using dry_cases exc by (auto simp: exec_events_def)
    have 2: "denial_final ?suf"
      using dry_cases denial_final_exec[OF exc] by auto
    have 3: "refine_follows_failure p ?suf"
      using dry_cases refine_follows_failure_exec[OF exc] by auto
    have 4: "authorized_first e A ?suf"
      using dry_cases authorized_first_exec[OF exc assms] assms sent1 by auto
    show ?thesis using 1 2 3 4 noden by blast
  next
    case False
    define err where "err = (case error (fst V) of None \<Rightarrow> [] | Some t \<Rightarrow> t)"
    define R where "R = refine_sql e s err (snd V)"
    have Rev: "snd R = snd V @ [Llm_call (Refine_req s err)]"
      unfolding R_def by (rule refine_events)
    show ?thesis
    proof (cases "fst R = []")
      case True
      obtain ex where ex: "snd (finish e s (fst V) (snd R)) = snd R @ Execute_stage s # ex"
          and exc: "exec_events e s ex"
        using finish_events by blast
      have res: "validate_refine_execute e s evs = finish e s (fst V) (snd R)"
        using False True
        by (simp add: validate_refine_execute_unfold V_def R_def err_def Let_def)
      let ?suf = "dry @ [Validated s False, Llm_call (Refine_req s err), Execute_stage s] @ ex"
      have 1: "snd (validate_refine_execute e s evs) = evs @ ?suf"
        using res ex Rev dry False by simp
      have noden: "\<not> (\<exists>r. Auth_check r False \<in> set ?suf)"
        using dry_cases exc by (auto simp: exec_events_def)
      have 2: "denial_final ?suf"
        using dry_cases denial_final_exec[OF exc] by auto
      have 3: "refine_follows_failure p ?suf"
        using dry_cases refine_follows_failure_exec[OF exc] by auto
      have 4: "authorized_first e A ?suf"
        using dry_cases authorized_first_exec[OF exc assms] assms sent1 by auto
      show ?thesis using 1 2 3 4 noden by blast
    next
      case nonempty: False
      define C where "C = check_query_authorization e (fst R) (snd R)"
      have Cev: "snd C = snd R @ [Auth_check (fst R) (fst (fst C))]"
        unfolding C_def by (rule check_query_authorization_events)
      show ?thesis
      proof (cases "fst (fst C)")
        case denied: False
        have res: "validate_refine_execute e s evs
            = (create_error_result (''Access denied: '' @ snd (fst C)), snd C)"
          using False nonempty denied
          by (simp add: validate_refine_execute_unfold V_def R_def err_def C_def Let_def)
        let ?suf = "dry @ [Validated s False, Llm_call (Refine_req s err), Auth_check (fst R) False]"
        have 1: "snd (validate_refine_execute e s evs) = evs @ ?suf"
          using res Cev Rev dry False denied by simp
        have 2: "denial_final ?suf" using dry_cases by auto
        have 3: "refine_follows_failure p ?suf" using dry_cases by auto
        have 4: "authorized_first e A ?suf" using dry_cases assms sent1 by auto
        have "fst (validate_refine_execute e s evs)
                    = create_error_result (''Access denied: '' @ snd (fst C))"
          by (subst res) (rule fst_conv)
        then have 5: "\<exists>msg. fst (validate_refine_execute e s evs)
                    = create_error_result (''Access denied: '' @ msg)"
          by (rule exI)
        show ?thesis using 1 2 3 4 5 by blast
      next
        case ok: True
        define V' where "V' = validate_sql_enhanced e (fst R) (snd C)"
        obtain dry' where dry': "snd V' = snd C @ dry' @ [Validated (fst R) (valid (fst V'))]"
            and dryc': "dry_run_events (fst R) dry'"
          using validate_events[of e "fst R" "snd C"] unfolding V'_def by blast
        have dry_cases': "dry' = [] \<or> dry' = [Db_query Admin_conn (with_limit_1 (fst R))]"
          using dryc' by (simp add: dry_run_events_def)
        have sent2: "sent_for e (fst R) (with_limit_1 (fst R))" by (simp add: sent_for_def)
        obtain ex where ex: "snd (finish e (fst R) (fst V') (snd V'))
              = snd V' @ Execute_stage (fst R) # ex"
            and exc: "exec_events e (fst R) ex"
          using finish_events by blast
        have res: "validate_refine_execute e s evs = finish e (fst R) (fst V') (snd V')"
          using False nonempty ok
          by (simp add: validate_refine_execute_unfold V_def R_def err_def C_def V'_def Let_def)
        let ?suf = "dry @ [Validated s False, Llm_call (Refine_req s err), Auth_check (fst R) True]
                     @ dry' @ [Validated (fst R) (valid (fst V')), Execute_stage (fst R)] @ ex"
        have 1: "snd (validate_refine_execute e s evs) = evs @ ?suf"
          using res ex dry' Cev Rev dry False ok by simp
        have noden: "\<not> (\<exists>r. Auth_check r False \<in> set ?suf)"
          using dry_cases dry_cases' exc by (auto simp: exec_events_def)
        have 2: "denial_final ?suf"
          using dry_cases dry_cases' denial_final_exec[OF exc] by auto
        have 3: "refine_follows_failure p ?suf"
          using dry_cases dry_cases' refine_follows_failure_exec[OF exc] by auto
        have inA: "fst R \<in> A \<union> {sa. Auth_check (fst R) True = Auth_check sa True}" by simp
        have 4: "authorized_first e A ?suf"
          using dry_cases dry_cases' assms sent1 sent2
            authorized_first_exec[OF exc, of "insert (fst R) A"]
          by (auto simp: insert_commute)
        show ?thesis using 1 2 3 4 noden by blast
      qed
    qed
  qed
qed

lemma denial_final_plain:
  "\<forall>x \<in> set pre0. plain_call x \<Longrightarrow> suf \<noteq> [] \<or> pre0 = [] \<Longrightarrow>
   denial_final (pre0 @ suf) = denial_final suf"
  by (induction pre0) (auto simp: plain_call_def)

lemma denial_final_plain_only: "\<forall>x \<in> set pre0. plain_call x \<Longrightarrow> denial_final pre0"
  by (induction pre0) (auto simp: plain_call_def)

lemma refine_follows_failure_plain:
  "\<forall>x \<in> set pre0. plain_call x \<Longrightarrow>
   refine_follows_failure p (pre0 @ Auth_check g ok # suf)
     = refine_follows_failure (Some (Auth_check g ok)) suf"
  by (induction pre0 arbitrary: p) (auto simp: plain_call_def)

lemma refine_follows_failure_plain_only:
  "\<forall>x \<in> set pre0. plain_call x \<Longrightarrow> refine_follows_failure p pre0"
  by (induction pre0 arbitrary: p) (auto simp: plain_call_def)

lemma authorized_first_plain:
  "\<forall>x \<in> set pre0. plain_call x \<Longrightarrow>
   authorized_first e A (pre0 @ suf) = authorized_first e A suf"
  by (induction pre0) (auto simp: plain_call_def)

lemma layer1_events:
  "snd (check_pre_generation_authorization e rs []) = []
   \<or> snd (check_pre_generation_authorization e rs []) = [Llm_call Predict_req]"
proof (cases "current_user e")
  case None
  then show ?thesis by (simp add: check_pre_generation_authorization_def)
next
  case (Some u)
  have "snd (check_pre_generation_authorization e rs [])
      = snd (predict_required_tables e rs [])"
    using Some
    by (simp add: check_pre_generation_authorization_def Let_def split: prod.splits)
  then show ?thesis using predict_events[of e rs "[]"] by simp
qed

lemma generate_events:
  "snd (generate e evs) = evs @ [Llm_call Generate_req]
   \<or> snd (generate e evs) = evs @ [Llm_call Generate_req, Llm_call Intent_req, Llm_call Planner_req]"
  by (auto simp: generate_def enhanced_sql_generation_def planner_generate_def llm_invoke_def
           split: option.splits prod.splits)

lemma process_query_unfold:
  "process_query e =
     (let rs = get_comprehensive_schema_context e;
          L = check_pre_generation_authorization e rs [] in
      if \<not> fst (fst L) then (create_error_result (''Access denied: '' @ snd (fst L)), snd L)
      else (let G = generate e (snd L) in
            if fst G = [] then (create_error_result ''Failed to generate SQL query'', snd G)
            else (let C = check_query_authorization e (fst G) (snd G) in
                  if \<not> fst (fst C)
                  then (create_error_result (''Access denied: '' @ snd (fst C)), snd C)
                  else validate_refine_execute e (fst G) (snd C))))"
  by (simp add: process_query_def case_prod_beta Let_def)

lemma process_query_monitors:
  "denial_final (snd (process_query e))
   \<and> refine_follows_failure None (snd (process_query e))
   \<and> authorized_first e {} (snd (process_query e))
   \<and> ((\<exists>r. Auth_check r False \<in> set (snd (process_query e))) \<longrightarrow>
        (\<exists>msg. fst (process_query e) = create_error_result (''Access denied: '' @ msg)))"
proof -
  define rs where "rs = get_comprehensive_schema_context e"
  define L where "L = check_pre_generation_authorization e rs []"
  define G where "G = generate e (snd L)"
  define C where "C = check_query_authorization e (fst G) (snd G)"
  have Lp: "\<forall>x \<in> set (snd L). plain_call x"
    using layer1_events[of e rs] unfolding L_def by (auto simp: plain_call_def)
  have Gp: "\<forall>x \<in> set (snd G). plain_call x"
    using generate_events[of e "snd L"] Lp unfolding G_def by (auto simp: plain_call_def)
  have Cev: "snd C = snd G @ [Auth_check (fst G) (fst (fst C))]"
    unfolding C_def by (rule check_query_authorization_events)
  have noden: "\<not> (\<exists>r. Auth_check r False \<in> set pre0)" if "\<forall>x \<in> set pre0. plain_call x" for pre0
    using that by (auto simp: plain_call_def)
  show ?thesis
  proof (cases "fst (fst L)")
    case False
    have res: "process_query e = (create_error_result (''Access denied: '' @ snd (fst L)), snd L)"
      using False by (simp add: process_query_unfold rs_def L_def Let_def)
    have tr: "snd (process_query e) = snd L" by (subst res) (rule snd_conv)
    show ?thesis
      unfolding tr
      using denial_final_plain_only[OF Lp] refine_follows_failure_plain_only[OF Lp]
        authorized_first_plain[OF Lp, of e "{}" "[]"] noden[OF Lp]
      by simp
  next
    case l1: True
    show ?thesis
    proof (cases "fst G = []")
      case True
      have res: "process_query e = (create_error_result ''Failed to generate SQL query'', snd G)"
        using l1 True by (simp add: process_query_unfold rs_def L_def G_def Let_def)
      have tr: "snd (process_query e) = snd G" by (subst res) (rule snd_conv)
      show ?thesis
        unfolding tr
        using denial_final_plain_only[OF Gp] refine_follows_failure_plain_only[OF Gp]
          authorized_first_plain[OF Gp, of e "{}" "[]"] noden[OF Gp]
        by simp
    next
      case gen: False
      show ?thesis
      proof (cases "fst (fst C)")
        case False
        have res: "process_query e = (create_error_result (''Access denied: '' @ snd (fst C)), snd C)"
          using l1 gen False
          by (simp add: process_query_unfold rs_def L_def G_def C_def Let_def)
        have tr: "snd (process_query e) = snd G @ [Auth_check (fst G) False]"
          using Cev False by (subst res) simp
        have "fst (process_query e) = create_error_result (''Access denied: '' @ snd (fst C))"
          by (subst res) (rule fst_conv)
        then have err: "\<exists>msg. fst (process_query e) = create_error_result (''Access denied: '' @ msg)"
          by (rule exI)
        have 1: "denial_final (snd G @ [Auth_check (fst G) False])"
          using denial_final_plain[OF Gp, of "[Auth_check (fst G) False]"] by simp
        have 2: "refine_follows_failure None (snd G @ [Auth_check (fst G) False])"
          using refine_follows_failure_plain[OF Gp, of None "fst G" False "[]"] by simp
        have 3: "authorized_first e {} (snd G @ [Auth_check (fst G) False])"
          using authorized_first_plain[OF Gp, of e "{}" "[Auth_check (fst G) False]"] by simp
        show ?thesis unfolding tr using 1 2 3 err by blast
      next
        case ok: True
        have res: "process_query e = validate_refine_execute e (fst G) (snd C)"
          using l1 gen ok
          by (simp add: process_query_unfold rs_def L_def G_def C_def Let_def)
        obtain suf where suf: "snd (validate_refine_execute e (fst G) (snd C)) = snd C @ suf"
          and m1: "denial_final suf"
          and m2: "refine_follows_failure (Some (Auth_check (fst G) True)) suf"
          and m3: "authorized_first e {fst G} suf"
          and m4: "(\<exists>r. Auth_check r False \<in> set suf) \<longrightarrow>
              (\<exists>msg. fst (validate_refine_execute e (fst G) (snd C))
                    = create_error_result (''Access denied: '' @ msg))"
          using validate_refine_execute_tail[of "fst G" "{fst G}" e "snd C"
                  "Some (Auth_check (fst G) True)"]
          by auto
        have tr: "snd (process_query e) = snd G @ Auth_check (fst G) True # suf"
          using res suf Cev ok by simp
        have 1: "denial_final (snd G @ Auth_check (fst G) True # suf)"
          using denial_final_plain[OF Gp, of "Auth_check (fst G) True # suf"] m1 by simp
        have 2: "refine_follows_failure None (snd G @ Auth_check (fst G) True # suf)"
          using refine_follows_failure_plain[OF Gp, of None "fst G" True suf] m2 by simp
        have 3: "authorized_first e {} (snd G @ Auth_check (fst G) True # suf)"
          using authorized_first_plain[OF Gp, of e "{}" "Auth_check (fst G) True # suf"] m3
          by simp
        have 4: "(\<exists>r. Auth_check r False \<in> set (snd G @ Auth_check (fst G) True # suf)) \<longrightarrow>
              (\<exists>msg. fst (process_query e) = create_error_result (''Access denied: '' @ msg))"
          using m4 noden[OF Gp] res by auto
        show ?thesis unfolding tr using 1 2 3 4 by blast
      qed
    qed
  qed
qed

text \<open>
  C3: nothing follows a denial of Layer 2 in the trace of a request, for the first
  candidate or a refined one, and the result is then an access-denied error result (so
  no refinement is triggered by a denial); a refinement request to the oracle comes only
  right after a failed validation of the statement it refines; and a statement is
  validated, sent to the database or executed only after Layer 2 has let that very
  statement through, which holds of refined candidates as of the first one.
\<close>

theorem layer2_denial_is_terminal:
  "(\<forall>pre s post. snd (process_query e) = pre @ Auth_check s False # post \<longrightarrow>
       post = []
       \<and> (\<exists>msg. fst (process_query e) = create_error_result (''Access denied: '' @ msg)))
   \<and> (\<forall>pre s err post. snd (process_query e) = pre @ Llm_call (Refine_req s err) # post \<longrightarrow>
       (\<exists>pre'. pre = pre' @ [Validated s False]))
   \<and> (\<forall>pre x post s. snd (process_query e) = pre @ x # post
         \<and> (x = Execute_stage s \<or> (\<exists>v. x = Validated s v)) \<longrightarrow>
       Auth_check s True \<in> set pre)
   \<and> (\<forall>pre c q post. snd (process_query e) = pre @ Db_query c q # post \<longrightarrow>
       (\<exists>s. Auth_check s True \<in> set pre \<and> (q = with_limit_1 s \<or> q = with_result_limit e s)))"
proof -
  note m = process_query_monitors[of e]
  have a: "post = [] \<and> (\<exists>msg. fst (process_query e) = create_error_result (''Access denied: '' @ msg))"
    if "snd (process_query e) = pre @ Auth_check s False # post" for pre s post
  proof -
    have "post = []" using denial_final_sound[OF _ that] m by blast
    moreover have "Auth_check s False \<in> set (snd (process_query e))" using that by simp
    ultimately show ?thesis using m by blast
  qed
  have b: "\<exists>pre'. pre = pre' @ [Validated s False]"
    if "snd (process_query e) = pre @ Llm_call (Refine_req s err) # post" for pre s err post
    using refine_follows_failure_sound[OF _ that, of None] m by simp
  have c: "Auth_check s True \<in> set pre"
    if "snd (process_query e) = pre @ x # post \<and> (x = Execute_stage s \<or> (\<exists>v. x = Validated s v))"
    for pre x post s
    using authorized_first_sound[of e "{}" "snd (process_query e)" pre x post s] m that by simp
  have d: "\<exists>s. Auth_check s True \<in> set pre \<and> (q = with_limit_1 s \<or> q = with_result_limit e s)"
    if "snd (process_query e) = pre @ Db_query c q # post" for pre c q post
    using authorized_first_sound[of e "{}" "snd (process_query e)" pre "Db_query c q" post] m that
    by (simp add: sent_for_def)
  show ?thesis using a b c d by blast
qed

lemma refine_denied_run:
  "process_query refine_denied_env
     = (create_error_result ''Access denied: Access denied to table: customers'',
        [Llm_call Predict_req, Llm_call Generate_req,
         Auth_check ''SELECT * FROM orders WHERE (total > 5'' True,
         Validated ''SELECT * FROM orders WHERE (total > 5'' False,
         Llm_call (Refine_req ''SELECT * FROM orders WHERE (total > 5'' ''Unbalanced parentheses''),
         Auth_check ''SELECT * FROM customers'' False])"
  by code_simp

theorem layer2_denial_is_terminal_witness:
  "snd (process_query refine_denied_env)
     = [Llm_call Predict_req, Llm_call Generate_req,
         Auth_check ''SELECT * FROM orders WHERE (total > 5'' True,
         Validated ''SELECT * FROM orders WHERE (total > 5'' False]
       @ Llm_call (Refine_req ''SELECT * FROM orders WHERE (total > 5'' ''Unbalanced parentheses'')
       # [Auth_check ''SELECT * FROM customers'' False]
   \<and> snd (process_query refine_denied_env)
     = [Llm_call Predict_req, Llm_call Generate_req,
         Auth_check ''SELECT * FROM orders WHERE (total > 5'' True,
         Validated ''SELECT * FROM orders WHERE (total > 5'' False,
         Llm_call (Refine_req ''SELECT * FROM orders WHERE (total > 5'' ''Unbalanced parentheses'')]
       @ Auth_check ''SELECT * FROM customers'' False # []
   \<and> (\<exists>msg. fst (process_query refine_denied_env)
               = create_error_result (''Access denied: '' @ msg))
   \<and> (\<exists>pre'. [Llm_call Predict_req, Llm_call Generate_req,
                Auth_check ''SELECT * FROM orders WHERE (total > 5'' True,
                Validated ''SELECT * FROM orders WHERE (total > 5'' False]
               = pre' @ [Validated ''SELECT * FROM orders WHERE (total > 5'' False])
   \<and> Auth_check ''SELECT * FROM orders WHERE (total > 5'' True
        \<in> set [Llm_call Predict_req, Llm_call Generate_req,
                Auth_check ''SELECT * FROM orders WHERE (total > 5'' True]"
proof -
  have t1: "snd (process_query refine_denied_env)
     = [Llm_call Predict_req, Llm_call Generate_req,
         Auth_check ''SELECT * FROM orders WHERE (total > 5'' True,
         Validated ''SELECT * FROM orders WHERE (total > 5'' False]
       @ Llm_call (Refine_req ''SELECT * FROM orders WHERE (total > 5'' ''Unbalanced parentheses'')
       # [Auth_check ''SELECT * FROM customers'' False]"
    by (simp add: refine_denied_run)
  have t2: "snd (process_query refine_denied_env)
     = [Llm_call Predict_req, Llm_call Generate_req,
         Auth_check ''SELECT * FROM orders WHERE (total > 5'' True,
         Validated ''SELECT * FROM orders WHERE (total > 5'' False,
         Llm_call (Refine_req ''SELECT * FROM orders WHERE (total > 5'' ''Unbalanced parentheses'')]
       @ Auth_check ''SELECT * FROM customers'' False # []"
    by (simp add: refine_denied_run)
  have t3: "snd (process_query refine_denied_env)
     = [Llm_call Predict_req, Llm_call Generate_req,
         Auth_check ''SELECT * FROM orders WHERE (total > 5'' True]
       @ Validated ''SELECT * FROM orders WHERE (total > 5'' False
       # [Llm_call (Refine_req ''SELECT * FROM orders WHERE (total > 5'' ''Unbalanced parentheses''),
          Auth_check ''SELECT * FROM customers'' False]"
    by (simp add: refine_denied_run)
  note main = layer2_denial_is_terminal[of refine_denied_env]
  from main t2 have a: "\<exists>msg. fst (process_query refine_denied_env)
               = create_error_result (''Access denied: '' @ msg)"
    by blast
  from main t1 have b: "\<exists>pre'. [Llm_call Predict_req, Llm_call Generate_req,
                Auth_check ''SELECT * FROM orders WHERE (total > 5'' True,
                Validated ''SELECT * FROM orders WHERE (total > 5'' False]
               = pre' @ [Validated ''SELECT * FROM orders WHERE (total > 5'' False]"
    by blast
  from main t3 have c: "Auth_check ''SELECT * FROM orders WHERE (total > 5'' True
        \<in> set [Llm_call Predict_req, Llm_call Generate_req,
                Auth_check ''SELECT * FROM orders WHERE (total > 5'' True]"
    by blast
  show ?thesis using t1 t2 a b c by blast
qed

section \<open>What Layer 2 reads as columns\<close>







section \<open>The validator of the enterprise agent and what the pipeline executes\<close>

lemma show_nat_5000: "show_nat 5000 = ''5000''"
  by (simp add: show_nat.simps digit_char_def)

lemma finish_user_connection:
  assumes "current_user e = Some u"
    and "db_passwords e (username u) = Some (Some p)" and "p \<noteq> []"
    and "db e (Suc (length evs)) (User_conn (username u) p) (with_result_limit e sql) = Inr result"
  shows "finish e sql v evs
     = (\<lparr>res_generated_sql = sql, res_execution_result = Some result, res_error_message = [],
         res_confidence_score = confidence v\<rparr>,
        evs @ [Execute_stage sql, Db_query (User_conn (username u) p) (with_result_limit e sql)])"
  using assms
  by (simp add: finish_def execute_sql_safely_def execute_with_user_connection_def
        execute_query_def)

lemma truncate_layer1:
  "fst (fst (check_pre_generation_authorization truncate_env
               (get_comprehensive_schema_context truncate_env) []))
   \<and> snd (check_pre_generation_authorization truncate_env
               (get_comprehensive_schema_context truncate_env) []) = [Llm_call Predict_req]"
  by code_simp

lemma truncate_generate:
  "generate truncate_env [Llm_call Predict_req]
     = (truncate_sql, [Llm_call Predict_req, Llm_call Generate_req])"
  by code_simp

lemma truncate_layer2:
  "check_query_authorization truncate_env truncate_sql [Llm_call Predict_req, Llm_call Generate_req]
     = ((True, ''Query authorized''),
        [Llm_call Predict_req, Llm_call Generate_req, Auth_check truncate_sql True])"
  by code_simp

lemma truncate_validate:
  "valid (fst (validate_sql_enhanced truncate_env truncate_sql
                 [Llm_call Predict_req, Llm_call Generate_req, Auth_check truncate_sql True]))
   \<and> snd (validate_sql_enhanced truncate_env truncate_sql
                 [Llm_call Predict_req, Llm_call Generate_req, Auth_check truncate_sql True])
      = [Llm_call Predict_req, Llm_call Generate_req, Auth_check truncate_sql True,
         Db_query Admin_conn (truncate_sql @ '' LIMIT 1''), Validated truncate_sql True]"
  by code_simp

lemma truncate_limit: 
  "\<not> contains (upper truncate_sql) ''LIMIT'' \<and> \<not> contains (upper truncate_sql) ''TOP''
   \<and> rstrip_semicolons truncate_sql = truncate_sql \<and> truncate_sql \<noteq> []"
  by code_simp

lemma truncate_with_result_limit:
  "with_result_limit truncate_env truncate_sql = truncate_sql @ '' LIMIT 5000''"
  using truncate_limit
  by (simp add: with_result_limit_def Let_def truncate_env_def unknown_tables_env_def show_nat_5000)

lemma truncate_run:
  "snd (process_query truncate_env)
     = [Llm_call Predict_req, Llm_call Generate_req, Auth_check truncate_sql True,
        Db_query Admin_conn (truncate_sql @ '' LIMIT 1''), Validated truncate_sql True,
        Execute_stage truncate_sql,
        Db_query (User_conn ''alice'' ''s3cret'') (truncate_sql @ '' LIMIT 5000'')]
   \<and> res_execution_result (fst (process_query truncate_env)) = Some []
   \<and> res_error_message (fst (process_query truncate_env)) = []
   \<and> res_generated_sql (fst (process_query truncate_env)) = truncate_sql"
proof -
  have u: "current_user truncate_env = Some alice"
    by (simp add: truncate_env_def unknown_tables_env_def)
  have pw: "db_passwords truncate_env (username alice) = Some (Some ''s3cret'')"
    by (simp add: truncate_env_def unknown_tables_env_def alice_def)
  have dbok: "db truncate_env n c q = Inr []" for n c q
    by (simp add: truncate_env_def unknown_tables_env_def)
  have ne: "truncate_sql \<noteq> []" using truncate_limit by simp
  have un: "username alice = ''alice''" by (simp add: alice_def)
  show ?thesis
    using truncate_layer1 truncate_validate ne
    by (simp add: process_query_unfold validate_refine_execute_unfold Let_def
          truncate_generate truncate_layer2
          finish_user_connection[OF u pw _ dbok] truncate_with_result_limit un)
qed

text \<open>
  C1, the code at the failing input. \<open>TRUNCATE\<close> is missing from the list of dangerous
  patterns of \<^verbatim>\<open>_validate_sql_enhanced\<close> (the list of \<^verbatim>\<open>_validate_sql\<close> in
  \<^verbatim>\<open>V2/agents/sql_agent_fixed.py\<close> has it): a statement that truncates a table
  passes validation once the dry run succeeds, and the pipeline executes it.
\<close>

theorem truncate_passes_validation_and_runs:
  "contains truncate_sql ''TRUNCATE''
   \<and> valid (fst (validate_sql_enhanced truncate_env truncate_sql
                 [Llm_call Predict_req, Llm_call Generate_req, Auth_check truncate_sql True]))
   \<and> Validated truncate_sql True \<in> set (snd (process_query truncate_env))
   \<and> Db_query (User_conn ''alice'' ''s3cret'') (truncate_sql @ '' LIMIT 5000'')
        \<in> set (snd (process_query truncate_env))
   \<and> res_generated_sql (fst (process_query truncate_env)) = truncate_sql
   \<and> res_error_message (fst (process_query truncate_env)) = []"
proof -
  have "contains truncate_sql ''TRUNCATE''" by code_simp
  then show ?thesis using truncate_validate truncate_run by simp
qed

lemma drop_layer1:
  "fst (fst (check_pre_generation_authorization drop_env
               (get_comprehensive_schema_context drop_env) []))
   \<and> snd (check_pre_generation_authorization drop_env
               (get_comprehensive_schema_context drop_env) []) = [Llm_call Predict_req]"
  by code_simp

lemma drop_generate:
  "generate drop_env [Llm_call Predict_req]
     = (drop_sql, [Llm_call Predict_req, Llm_call Generate_req])"
  by code_simp

lemma drop_layer2:
  "check_query_authorization drop_env drop_sql [Llm_call Predict_req, Llm_call Generate_req]
     = ((True, ''Query authorized''),
        [Llm_call Predict_req, Llm_call Generate_req, Auth_check drop_sql True])"
  by code_simp

lemma drop_validate:
  "\<not> valid (fst (validate_sql_enhanced drop_env drop_sql
                 [Llm_call Predict_req, Llm_call Generate_req, Auth_check drop_sql True]))
   \<and> error (fst (validate_sql_enhanced drop_env drop_sql
                 [Llm_call Predict_req, Llm_call Generate_req, Auth_check drop_sql True]))
      = Some ''Dangerous operation: DROP''
   \<and> snd (validate_sql_enhanced drop_env drop_sql
                 [Llm_call Predict_req, Llm_call Generate_req, Auth_check drop_sql True])
      = [Llm_call Predict_req, Llm_call Generate_req, Auth_check drop_sql True,
         Validated drop_sql False]"
  by code_simp

lemma drop_refine:
  "refine_sql drop_env drop_sql ''Dangerous operation: DROP''
     [Llm_call Predict_req, Llm_call Generate_req, Auth_check drop_sql True,
      Validated drop_sql False]
   = ([], [Llm_call Predict_req, Llm_call Generate_req, Auth_check drop_sql True,
           Validated drop_sql False,
           Llm_call (Refine_req drop_sql ''Dangerous operation: DROP'')])"
  by code_simp

lemma drop_limit:
  "\<not> contains (upper drop_sql) ''LIMIT'' \<and> \<not> contains (upper drop_sql) ''TOP''
   \<and> rstrip_semicolons drop_sql = drop_sql \<and> drop_sql \<noteq> []
   \<and> contains (upper drop_sql) ''DROP'' \<and> startswith (upper drop_sql) ''SELECT''"
  by code_simp

lemma drop_with_result_limit:
  "with_result_limit drop_env drop_sql = drop_sql @ '' LIMIT 5000''"
  using drop_limit
  by (simp add: with_result_limit_def Let_def drop_env_def unknown_tables_env_def show_nat_5000)

lemma drop_run:
  "snd (process_query drop_env)
     = [Llm_call Predict_req, Llm_call Generate_req, Auth_check drop_sql True,
        Validated drop_sql False, Llm_call (Refine_req drop_sql ''Dangerous operation: DROP''),
        Execute_stage drop_sql,
        Db_query (User_conn ''alice'' ''s3cret'') (drop_sql @ '' LIMIT 5000'')]
   \<and> res_execution_result (fst (process_query drop_env)) = Some []
   \<and> res_error_message (fst (process_query drop_env)) = []
   \<and> res_generated_sql (fst (process_query drop_env)) = drop_sql"
proof -
  have u: "current_user drop_env = Some alice"
    by (simp add: drop_env_def unknown_tables_env_def)
  have pw: "db_passwords drop_env (username alice) = Some (Some ''s3cret'')"
    by (simp add: drop_env_def unknown_tables_env_def alice_def)
  have dbok: "db drop_env n c q = Inr []" for n c q
    by (simp add: drop_env_def unknown_tables_env_def)
  have ne: "drop_sql \<noteq> []" using drop_limit by simp
  have un: "username alice = ''alice''" by (simp add: alice_def)
  show ?thesis
    using drop_layer1 drop_validate ne
    by (simp add: process_query_unfold validate_refine_execute_unfold Let_def
          drop_generate drop_layer2 drop_refine
          finish_user_connection[OF u pw _ dbok] drop_with_result_limit un)
qed

text \<open>
  C5, the code at the failing input. \<^verbatim>\<open>process_query\<close> goes on to step 4 whatever
  the validation said: when the refinement gives nothing, the statement that failed
  validation for its \<open>DROP\<close> is executed, and the caller receives it with rows and
  an empty error text.
\<close>

theorem failed_validation_is_executed:
  "contains (upper drop_sql) ''DROP''
   \<and> Validated drop_sql False \<in> set (snd (process_query drop_env))
   \<and> Db_query (User_conn ''alice'' ''s3cret'') (drop_sql @ '' LIMIT 5000'')
        \<in> set (snd (process_query drop_env))
   \<and> res_generated_sql (fst (process_query drop_env)) = drop_sql
   \<and> res_execution_result (fst (process_query drop_env)) = Some []
   \<and> res_error_message (fst (process_query drop_env)) = []"
  using drop_limit drop_run by simp

section \<open>The bounded refinement loop of the workflow agent\<close>

lemma validate_sql_attempts [simp]:
  "s_refinement_attempts (validate_sql e st) = s_refinement_attempts st"
  by (simp add: validate_sql_def state_query_def execute_query_def Let_def
        split: option.splits sum.splits prod.splits)

lemma execute_sql_attempts [simp]:
  "s_refinement_attempts (execute_sql e st) = s_refinement_attempts st"
  by (simp add: execute_sql_def state_query_def execute_query_def Let_def
        split: option.splits sum.splits prod.splits)

lemma refine_sql_node_attempts [simp]:
  "s_refinement_attempts (refine_sql_node e st) = Suc (s_refinement_attempts st)"
  by (simp add: refine_sql_node_def state_llm_def llm_invoke_def Let_def
        split: option.splits prod.splits)

lemma analyze_query_attempts [simp]:
  "s_refinement_attempts (analyze_query e st) = s_refinement_attempts st"
  by (simp add: analyze_query_def Let_def split: option.splits)

lemma generate_sql_attempts [simp]:
  "s_refinement_attempts (generate_sql e st) = s_refinement_attempts st"
  by (simp add: generate_sql_def prepare_generation_def generate_simple_fallback_query_def
        state_llm_def state_schema_def llm_invoke_def Let_def
        split: option.splits prod.splits list.splits)

lemma route_refine_below_max:
  "should_execute_or_refine st = Route_refine \<Longrightarrow> s_refinement_attempts st < max_refinement_attempts"
  by (simp add: should_execute_or_refine_def split: if_splits)



lemma validate_sql_nodes [simp]:
  "s_nodes (validate_sql e st) = ''validate_sql'' # s_nodes st"
  by (simp add: validate_sql_def state_query_def execute_query_def Let_def
        split: option.splits sum.splits prod.splits)

lemma execute_sql_nodes [simp]:
  "s_nodes (execute_sql e st) = ''execute_sql'' # s_nodes st"
  by (simp add: execute_sql_def state_query_def execute_query_def Let_def
        split: option.splits sum.splits prod.splits)

lemma refine_sql_node_nodes [simp]:
  "s_nodes (refine_sql_node e st) = ''refine_sql'' # s_nodes st"
  by (simp add: refine_sql_node_def state_llm_def llm_invoke_def Let_def
        split: option.splits prod.splits)

lemma analyze_query_nodes [simp]:
  "s_nodes (analyze_query e st) = ''analyze_query'' # s_nodes st"
  by (simp add: analyze_query_def Let_def split: option.splits)

lemma generate_sql_nodes [simp]:
  "s_nodes (generate_sql e st) = ''generate_sql'' # s_nodes st"
  by (simp add: generate_sql_def prepare_generation_def generate_simple_fallback_query_def
        state_llm_def state_schema_def llm_invoke_def Let_def
        split: option.splits prod.splits list.splits)

lemma run_from_validate_nodes:
  "length (s_nodes (run_from_validate e st))
     \<le> length (s_nodes st) + 2 * (max_refinement_attempts - s_refinement_attempts st) + 1"
proof (induction e st rule: run_from_validate.induct)
  case (1 e st)
  show ?case
  proof (cases "should_execute_or_refine (validate_sql e st)")
    case Route_execute
    then have "s_refinement_attempts st < max_refinement_attempts"
      by (simp add: should_execute_or_refine_def split: if_splits)
    then show ?thesis using Route_execute by (simp add: run_from_validate.simps[of e st])
  next
    case Route_refine
    have lt: "s_refinement_attempts st < max_refinement_attempts"
      using route_refine_below_max[OF Route_refine] by simp
    from "1.IH"[OF refl Route_refine] Route_refine lt
    show ?thesis by (simp add: run_from_validate.simps[of e st])
  next
    case Route_end
    then show ?thesis by (simp add: run_from_validate.simps[of e st])
  qed
qed

lemma run_workflow_nodes: "length (s_nodes (run_workflow e)) \<le> 7"
  using run_from_validate_nodes[of e "generate_sql e (analyze_query e initial_state)"]
  by (simp add: run_workflow_def initial_state_def max_refinement_attempts_def)




section \<open>An answer of the oracle without a statement\<close>



















end
